theory Spec2Isabelle
  imports Main
begin

section \<open>Voxels, directions and the game state\<close>

text \<open>
  The embedding follows \<^verbatim>\<open>full_spectrum.py\<close>. The enumeration \<^verbatim>\<open>V\<close> has the twelve
  members of the source, numbered 0..11 in this order.
\<close>

datatype V = BG | BLOCK_MOV | BLOCK_IMMOV | ENERGY_USED | ENERGY_UNUSED
  | SOURCE_ON | SOURCE_OFF | LIGHT_DIRECT | LIGHT_SCATTER | CRYSTAL
  | LIFE_USED | LIFE_UNUSED

text \<open>The exceptions the modelled code can raise.\<close>

datatype error = IndexError | ValueError

fun int_of_V :: "V \<Rightarrow> int" where
  "int_of_V BG = 0"
| "int_of_V BLOCK_MOV = 1"
| "int_of_V BLOCK_IMMOV = 2"
| "int_of_V ENERGY_USED = 3"
| "int_of_V ENERGY_UNUSED = 4"
| "int_of_V SOURCE_ON = 5"
| "int_of_V SOURCE_OFF = 6"
| "int_of_V LIGHT_DIRECT = 7"
| "int_of_V LIGHT_SCATTER = 8"
| "int_of_V CRYSTAL = 9"
| "int_of_V LIFE_USED = 10"
| "int_of_V LIFE_UNUSED = 11"

text \<open>\<^verbatim>\<open>V(n)\<close>: the enum's constructor raises ValueError for a number that is no member.\<close>

definition V_of_int :: "int \<Rightarrow> error + V" where
  "V_of_int n =
     (if n = 0 then Inr BG else if n = 1 then Inr BLOCK_MOV
      else if n = 2 then Inr BLOCK_IMMOV else if n = 3 then Inr ENERGY_USED
      else if n = 4 then Inr ENERGY_UNUSED else if n = 5 then Inr SOURCE_ON
      else if n = 6 then Inr SOURCE_OFF else if n = 7 then Inr LIGHT_DIRECT
      else if n = 8 then Inr LIGHT_SCATTER else if n = 9 then Inr CRYSTAL
      else if n = 10 then Inr LIFE_USED else if n = 11 then Inr LIFE_UNUSED
      else Inl ValueError)"

type_synonym Coord = "int \<times> int"

text \<open>The keys of \<^verbatim>\<open>DIRS\<close>: "U", "D", "L", "R".\<close>

datatype dir = U | D | L | R

fun DIRS :: "dir \<Rightarrow> int \<times> int" where
  "DIRS U = (-1, 0)"
| "DIRS D = (1, 0)"
| "DIRS L = (0, -1)"
| "DIRS R = (0, 1)"

text \<open>The string \<^verbatim>\<open>"UDLR"\<close> the source iterates over.\<close>

definition UDLR :: "dir list" where
  "UDLR = [U, D, L, R]"

record Config =
  width :: int
  height :: int
  energy_max :: int
  lives_max :: int

text \<open>
  \<^verbatim>\<open>base\<close> is a Python list of row lists. A Python list holds references, and the
  constructor keeps the row objects of the list it is given (it copies them into
  \<^verbatim>\<open>start_base\<close> only), so two indices of \<^verbatim>\<open>base\<close> can hold the same row object. The
  model keeps that identity: \<^verbatim>\<open>base\<close> is the list of the addresses of its row objects
  and \<open>row_of\<close> is the store, the list object at each address. \<^verbatim>\<open>start_base\<close> holds
  copies and is read and written by no function modelled here: it is a plain value.
\<close>

record Game =
  cfg :: Config
  base :: "nat list"
  row_of :: "nat \<Rightarrow> int list"
  start_base :: "int list list"
  energy :: int
  lives :: int
  selected :: "Coord option"
  light_direct :: "Coord set"
  light_scatter :: "Coord set"

section \<open>Board helpers\<close>

definition in_bounds :: "Game \<Rightarrow> int \<Rightarrow> int \<Rightarrow> bool" where
  "in_bounds g y x = (0 \<le> y \<and> y < height (cfg g) \<and> 0 \<le> x \<and> x < width (cfg g))"

text \<open>
  Python's \<^verbatim>\<open>xs[i]\<close>: an index from \<^verbatim>\<open>-len(xs)\<close> to \<^verbatim>\<open>-1\<close> counts from the end, and
  an index outside \<^verbatim>\<open>-len(xs) .. len(xs)-1\<close> raises IndexError.
\<close>

definition py_getitem :: "'a list \<Rightarrow> int \<Rightarrow> error + 'a" where
  "py_getitem xs i =
     (if 0 \<le> i \<and> i < int (length xs) then Inr (xs ! nat i)
      else if i < 0 \<and> - int (length xs) \<le> i then Inr (xs ! nat (int (length xs) + i))
      else Inl IndexError)"

definition py_setitem :: "'a list \<Rightarrow> int \<Rightarrow> 'a \<Rightarrow> error + 'a list" where
  "py_setitem xs i v =
     (if 0 \<le> i \<and> i < int (length xs) then Inr (xs[nat i := v])
      else if i < 0 \<and> - int (length xs) \<le> i then Inr (xs[nat (int (length xs) + i) := v])
      else Inl IndexError)"

text \<open>\<^verbatim>\<open>tile\<close>: \<^verbatim>\<open>V(self.base[y][x])\<close>, with no bounds check of its own.\<close>

definition tile :: "Game \<Rightarrow> int \<Rightarrow> int \<Rightarrow> error + V" where
  "tile g y x =
     (case py_getitem (base g) y of
        Inl e \<Rightarrow> Inl e
      | Inr a \<Rightarrow> (case py_getitem (row_of g a) x of Inl e \<Rightarrow> Inl e | Inr n \<Rightarrow> V_of_int n))"

text \<open>
  \<^verbatim>\<open>set_tile\<close>: \<^verbatim>\<open>self.base[y][x] = int(v)\<close>. The store goes into the row object that
  \<^verbatim>\<open>base[y]\<close> refers to, so it shows at every index of \<^verbatim>\<open>base\<close> that holds this
  object; the list \<^verbatim>\<open>base\<close> itself is not changed.
\<close>

definition set_tile :: "Game \<Rightarrow> int \<Rightarrow> int \<Rightarrow> V \<Rightarrow> error + Game" where
  "set_tile g y x v =
     (case py_getitem (base g) y of
        Inl e \<Rightarrow> Inl e
      | Inr a \<Rightarrow>
          (case py_setitem (row_of g a) x (int_of_V v) of
             Inl e \<Rightarrow> Inl e
           | Inr row' \<Rightarrow> Inr (g\<lparr>row_of := (row_of g)(a := row')\<rparr>)))"

text \<open>
  \<^verbatim>\<open>neighbors_line\<close> is a generator: it yields the cells after \<^verbatim>\<open>(y, x)\<close> in direction
  \<^verbatim>\<open>dir_key\<close> while they are in bounds. \<^verbatim>\<open>in_bounds\<close> reads the configuration only,
  which no caller changes while it consumes the generator, so the sequence is modelled
  as the list of the cells it would yield; \<^verbatim>\<open>line_from\<close> is its \<^verbatim>\<open>while\<close> loop.
\<close>

function line_from :: "Game \<Rightarrow> dir \<Rightarrow> int \<Rightarrow> int \<Rightarrow> Coord list" where
  "line_from g d ny nx =
     (if in_bounds g ny nx
      then (ny, nx) # line_from g d (ny + fst (DIRS d)) (nx + snd (DIRS d))
      else [])"
  by pat_completeness auto
termination
  by (relation "measure (\<lambda>(g, d, ny, nx).
        case d of U \<Rightarrow> nat (ny + 1) | D \<Rightarrow> nat (height (cfg g) - ny)
                | L \<Rightarrow> nat (nx + 1) | R \<Rightarrow> nat (width (cfg g) - nx))")
     (auto simp: in_bounds_def split: dir.splits)

declare line_from.simps [simp del]

definition neighbors_line :: "Game \<Rightarrow> int \<Rightarrow> int \<Rightarrow> dir \<Rightarrow> Coord list" where
  "neighbors_line g y x d = line_from g d (y + fst (DIRS d)) (x + snd (DIRS d))"

section \<open>Light propagation\<close>

text \<open>
  The ledger \<^verbatim>\<open>beams\<close> is a dictionary from a cell to the set of directions of the
  direct beams through it. Python iterates a dictionary in insertion order, so it is
  an association list in that order; \<^verbatim>\<open>beams_add\<close> is
  \<^verbatim>\<open>beams.setdefault(c, set()).add(d)\<close>.
\<close>

type_synonym beams = "(Coord \<times> dir set) list"

fun beams_add :: "beams \<Rightarrow> Coord \<Rightarrow> dir \<Rightarrow> beams" where
  "beams_add [] c d = [(c, {d})]"
| "beams_add ((k, s) # bs) c d =
     (if k = c then (k, insert d s) # bs else (k, s) # beams_add bs c d)"

text \<open>The \<^verbatim>\<open>for\<close> loop of \<^verbatim>\<open>cast_beam_direct\<close> over the cells of the line.\<close>

fun cast_beam_direct_loop ::
  "Game \<Rightarrow> dir \<Rightarrow> Coord list \<Rightarrow> beams \<Rightarrow> error + Game \<times> beams" where
  "cast_beam_direct_loop g d [] bm = Inr (g, bm)"
| "cast_beam_direct_loop g d ((y, x) # cs) bm =
     (case tile g y x of
        Inl e \<Rightarrow> Inl e
      | Inr t \<Rightarrow>
          if t = BLOCK_MOV \<or> t = BLOCK_IMMOV
          then Inr (g\<lparr>light_direct := insert (y, x) (light_direct g)\<rparr>, bm)
          else cast_beam_direct_loop (g\<lparr>light_direct := insert (y, x) (light_direct g)\<rparr>)
                 d cs (beams_add bm (y, x) d))"

definition cast_beam_direct ::
  "Game \<Rightarrow> Coord \<Rightarrow> dir \<Rightarrow> beams \<Rightarrow> error + Game \<times> beams" where
  "cast_beam_direct g origin d bm =
     cast_beam_direct_loop g d (neighbors_line g (fst origin) (snd origin) d) bm"

fun cast_scatter_from_loop :: "Game \<Rightarrow> Coord list \<Rightarrow> error + Game" where
  "cast_scatter_from_loop g [] = Inr g"
| "cast_scatter_from_loop g ((y, x) # cs) =
     (case tile g y x of
        Inl e \<Rightarrow> Inl e
      | Inr t \<Rightarrow>
          if t = BLOCK_MOV \<or> t = BLOCK_IMMOV
          then Inr (g\<lparr>light_scatter := insert (y, x) (light_scatter g)\<rparr>)
          else cast_scatter_from_loop (g\<lparr>light_scatter := insert (y, x) (light_scatter g)\<rparr>) cs)"

definition cast_scatter_from :: "Game \<Rightarrow> Coord \<Rightarrow> dir \<Rightarrow> error + Game" where
  "cast_scatter_from g start d =
     cast_scatter_from_loop g (neighbors_line g (fst start) (snd start) d)"

text \<open>
  \<^verbatim>\<open>apply_scattering\<close>. The inner loop \<^verbatim>\<open>for d in dirs\<close> runs over a Python set, whose
  iteration order the language leaves open: the order is the parameter \<open>en\<close>, which
  lists the members of a set of directions.
\<close>

fun scatter_dirs :: "Game \<Rightarrow> Coord \<Rightarrow> dir list \<Rightarrow> error + Game" where
  "scatter_dirs g c [] = Inr g"
| "scatter_dirs g c (d # ds) =
     (case cast_scatter_from g c d of Inl e \<Rightarrow> Inl e | Inr g' \<Rightarrow> scatter_dirs g' c ds)"

fun apply_scattering :: "(dir set \<Rightarrow> dir list) \<Rightarrow> Game \<Rightarrow> beams \<Rightarrow> error + Game" where
  "apply_scattering en g [] = Inr g"
| "apply_scattering en g ((c, dirs) # bs) =
     (if card dirs \<ge> 2
      then (case scatter_dirs g c (en dirs) of
              Inl e \<Rightarrow> Inl e
            | Inr g' \<Rightarrow> apply_scattering en g' bs)
      else apply_scattering en g bs)"

fun cast_direct_line_from_loop ::
  "Game \<Rightarrow> Coord list \<Rightarrow> bool \<Rightarrow> error + Game \<times> bool" where
  "cast_direct_line_from_loop g [] changed = Inr (g, changed)"
| "cast_direct_line_from_loop g ((y, x) # cs) changed =
     (case tile g y x of
        Inl e \<Rightarrow> Inl e
      | Inr t \<Rightarrow>
          if t = BLOCK_MOV \<or> t = BLOCK_IMMOV
          then Inr (g\<lparr>light_direct := insert (y, x) (light_direct g)\<rparr>,
                    changed \<or> (y, x) \<notin> light_direct g)
          else cast_direct_line_from_loop
                 (g\<lparr>light_direct := insert (y, x) (light_direct g)\<rparr>) cs
                 (changed \<or> (y, x) \<notin> light_direct g))"

definition cast_direct_line_from :: "Game \<Rightarrow> Coord \<Rightarrow> dir \<Rightarrow> error + Game \<times> bool" where
  "cast_direct_line_from g start d =
     cast_direct_line_from_loop g (neighbors_line g (fst start) (snd start) d) False"

fun cast_scatter_line_from_loop ::
  "Game \<Rightarrow> Coord list \<Rightarrow> bool \<Rightarrow> error + Game \<times> bool" where
  "cast_scatter_line_from_loop g [] changed = Inr (g, changed)"
| "cast_scatter_line_from_loop g ((y, x) # cs) changed =
     (case tile g y x of
        Inl e \<Rightarrow> Inl e
      | Inr t \<Rightarrow>
          if t = BLOCK_MOV \<or> t = BLOCK_IMMOV
          then Inr (g\<lparr>light_scatter := insert (y, x) (light_scatter g)\<rparr>,
                    changed \<or> (y, x) \<notin> light_scatter g)
          else cast_scatter_line_from_loop
                 (g\<lparr>light_scatter := insert (y, x) (light_scatter g)\<rparr>) cs
                 (changed \<or> (y, x) \<notin> light_scatter g))"

definition cast_scatter_line_from :: "Game \<Rightarrow> Coord \<Rightarrow> dir \<Rightarrow> error + Game \<times> bool" where
  "cast_scatter_line_from g start d =
     cast_scatter_line_from_loop g (neighbors_line g (fst start) (snd start) d) False"

text \<open>
  The cells in the order of \<^verbatim>\<open>for y in range(height): for x in range(width)\<close>.
\<close>

definition all_cells :: "Game \<Rightarrow> Coord list" where
  "all_cells g =
     concat (map (\<lambda>y. map (\<lambda>x. (y, x)) [0 .. width (cfg g) - 1]) [0 .. height (cfg g) - 1])"

text \<open>
  \<^verbatim>\<open>apply_crystals\<close>: \<open>lit\<close> is the union taken once before the loops, \<open>is_direct\<close> is
  read from the current direct set when the crystal is reached, and
  \<^verbatim>\<open>changed |= cast(...)\<close> always runs the cast.
\<close>

fun crystal_emit ::
  "Game \<Rightarrow> Coord \<Rightarrow> bool \<Rightarrow> dir list \<Rightarrow> bool \<Rightarrow> error + Game \<times> bool" where
  "crystal_emit g c is_direct [] changed = Inr (g, changed)"
| "crystal_emit g c is_direct (d # ds) changed =
     (case (if is_direct then cast_direct_line_from g c d
            else cast_scatter_line_from g c d) of
        Inl e \<Rightarrow> Inl e
      | Inr (g', ch) \<Rightarrow> crystal_emit g' c is_direct ds (changed \<or> ch))"

fun apply_crystals_loop ::
  "Game \<Rightarrow> Coord set \<Rightarrow> Coord list \<Rightarrow> bool \<Rightarrow> error + Game \<times> bool" where
  "apply_crystals_loop g lit [] changed = Inr (g, changed)"
| "apply_crystals_loop g lit ((y, x) # cs) changed =
     (case tile g y x of
        Inl e \<Rightarrow> Inl e
      | Inr t \<Rightarrow>
          if t = CRYSTAL \<and> (y, x) \<in> lit
          then (case crystal_emit g (y, x) ((y, x) \<in> light_direct g) UDLR changed of
                  Inl e \<Rightarrow> Inl e
                | Inr (g', ch) \<Rightarrow> apply_crystals_loop g' lit cs ch)
          else apply_crystals_loop g lit cs changed)"

definition apply_crystals :: "Game \<Rightarrow> error + Game \<times> bool" where
  "apply_crystals g =
     apply_crystals_loop g (light_direct g \<union> light_scatter g) (all_cells g) False"

text \<open>
  The first pass of \<^verbatim>\<open>recompute_light\<close>: the direct beams of every ON source, in the
  four directions.
\<close>

fun cast_beam_dirs ::
  "Game \<Rightarrow> Coord \<Rightarrow> dir list \<Rightarrow> beams \<Rightarrow> error + Game \<times> beams" where
  "cast_beam_dirs g c [] bm = Inr (g, bm)"
| "cast_beam_dirs g c (d # ds) bm =
     (case cast_beam_direct g c d bm of
        Inl e \<Rightarrow> Inl e
      | Inr (g', bm') \<Rightarrow> cast_beam_dirs g' c ds bm')"

fun cast_sources :: "Game \<Rightarrow> Coord list \<Rightarrow> beams \<Rightarrow> error + Game \<times> beams" where
  "cast_sources g [] bm = Inr (g, bm)"
| "cast_sources g ((y, x) # cs) bm =
     (case tile g y x of
        Inl e \<Rightarrow> Inl e
      | Inr t \<Rightarrow>
          if t = SOURCE_ON
          then (case cast_beam_dirs g (y, x) UDLR bm of
                  Inl e \<Rightarrow> Inl e
                | Inr (g', bm') \<Rightarrow> cast_sources g' cs bm')
          else cast_sources g cs bm)"

text \<open>
  The refraction loop \<^verbatim>\<open>while changed and iterations < 16\<close>. It returns the state
  with the last values of \<^verbatim>\<open>changed\<close> and \<^verbatim>\<open>iterations\<close>.
\<close>

function crystal_loop :: "Game \<Rightarrow> bool \<Rightarrow> nat \<Rightarrow> error + Game \<times> bool \<times> nat" where
  "crystal_loop g changed iterations =
     (if changed \<and> iterations < 16
      then (case apply_crystals g of
              Inl e \<Rightarrow> Inl e
            | Inr (g', ch) \<Rightarrow> crystal_loop g' ch (iterations + 1))
      else Inr (g, changed, iterations))"
  by pat_completeness auto
termination
  by (relation "measure (\<lambda>(g, changed, iterations). 16 - iterations)") auto

declare crystal_loop.simps [simp del]

definition recompute_light :: "(dir set \<Rightarrow> dir list) \<Rightarrow> Game \<Rightarrow> error + Game" where
  "recompute_light en g =
     (let g0 = g\<lparr>light_direct := {}, light_scatter := {}\<rparr> in
      case cast_sources g0 (all_cells g0) [] of
        Inl e \<Rightarrow> Inl e
      | Inr (g1, bm) \<Rightarrow>
          (case apply_scattering en g1 bm of
             Inl e \<Rightarrow> Inl e
           | Inr g2 \<Rightarrow>
               (case crystal_loop g2 True 0 of
                  Inl e \<Rightarrow> Inl e
                | Inr (g3, changed, iterations) \<Rightarrow> Inr g3)))"

text \<open>
  \<^verbatim>\<open>after_change\<close>. The loop runs over \<^verbatim>\<open>list(self.light_direct)\<close>, a Python set
  turned into a list in an order the language leaves open: the order is the parameter
  \<open>enc\<close>.
\<close>

fun lock_blocks :: "Game \<Rightarrow> Coord list \<Rightarrow> error + Game" where
  "lock_blocks g [] = Inr g"
| "lock_blocks g ((y, x) # cs) =
     (case tile g y x of
        Inl e \<Rightarrow> Inl e
      | Inr t \<Rightarrow>
          if t = BLOCK_MOV
          then (case set_tile g y x BLOCK_IMMOV of
                  Inl e \<Rightarrow> Inl e
                | Inr g' \<Rightarrow> lock_blocks g' cs)
          else lock_blocks g cs)"

definition after_change ::
  "(dir set \<Rightarrow> dir list) \<Rightarrow> (Coord set \<Rightarrow> Coord list) \<Rightarrow> Game \<Rightarrow> error + Game" where
  "after_change en enc g =
     (case recompute_light en g of
        Inl e \<Rightarrow> Inl e
      | Inr g1 \<Rightarrow>
          (case lock_blocks g1 (enc (light_direct g1)) of
             Inl e \<Rightarrow> Inl e
           | Inr g2 \<Rightarrow> recompute_light en g2))"

text \<open>One way to list a set of directions, used for concrete runs.\<close>

definition enum_dirs :: "dir set \<Rightarrow> dir list" where
  "enum_dirs s = filter (\<lambda>d. d \<in> s) [U, D, L, R]"

section \<open>Notions used in the statements\<close>

text \<open>
  A board is well formed when \<^verbatim>\<open>base\<close> has \<^verbatim>\<open>height\<close> rows and each of its row
  objects holds \<^verbatim>\<open>width\<close> numbers that are members of \<^verbatim>\<open>V\<close>. Rows may be shared.
\<close>

definition well_formed :: "Game \<Rightarrow> bool" where
  "well_formed g =
     (length (base g) = nat (height (cfg g)) \<and>
      (\<forall>a \<in> set (base g). length (row_of g a) = nat (width (cfg g)) \<and>
         (\<forall>n \<in> set (row_of g a). 0 \<le> n \<and> n \<le> 11)))"

definition is_block :: "Game \<Rightarrow> Coord \<Rightarrow> bool" where
  "is_block g c = (tile g (fst c) (snd c) = Inr BLOCK_MOV \<or> tile g (fst c) (snd c) = Inr BLOCK_IMMOV)"

text \<open>The cells a cast lights on a line: up to the first block, the block included.\<close>

fun beam_cells :: "Game \<Rightarrow> Coord list \<Rightarrow> Coord list" where
  "beam_cells g [] = []"
| "beam_cells g (c # cs) = (if is_block g c then [c] else c # beam_cells g cs)"

definition on_board :: "Game \<Rightarrow> Coord list \<Rightarrow> bool" where
  "on_board g cs = (\<forall>c \<in> set cs. in_bounds g (fst c) (snd c))"


text \<open>
  A game whose rows are separate list objects, as the constructor's default, \<^verbatim>\<open>demo_level\<close>
  and \<^verbatim>\<open>reset_level\<close> make them: row \<open>i\<close> is the object at address \<open>i\<close>.
\<close>

definition board :: "int \<Rightarrow> int \<Rightarrow> int list list \<Rightarrow> Game" where
  "board w h rs =
     \<lparr>cfg = \<lparr>width = w, height = h, energy_max = 20, lives_max = 3\<rparr>,
      base = [0 ..< length rs],
      row_of = (\<lambda>a. if a < length rs then rs ! a else []),
      start_base = rs,
      energy = 20, lives = 3, selected = None, light_direct = {}, light_scatter = {}\<rparr>"

text \<open>
  Scenario A: a 5x5 board, every cell \<^verbatim>\<open>BG\<close> except \<^verbatim>\<open>SOURCE_ON\<close> at row 2, column 0.
\<close>

definition scenario_A :: Game where
  "scenario_A =
     board 5 5 [[0,0,0,0,0],[0,0,0,0,0],[5,0,0,0,0],[0,0,0,0,0],[0,0,0,0,0]]"

text \<open>The cells lit by the casts from a cell in a list of directions.\<close>

definition emit_dirs :: "Game \<Rightarrow> Coord \<Rightarrow> dir list \<Rightarrow> Coord set" where
  "emit_dirs g c ds = (\<Union>d \<in> set ds. set (beam_cells g (neighbors_line g (fst c) (snd c) d)))"

text \<open>An iteration order of the direction sets lists exactly the members of each set.\<close>

definition valid_en :: "(dir set \<Rightarrow> dir list) \<Rightarrow> bool" where
  "valid_en en = (\<forall>s. set (en s) = s)"

text \<open>
  \<open>light_grows g g'\<close>: the state \<open>g'\<close> is \<open>g\<close> with light sets that contain those of \<open>g\<close>
  and add cells of the board only; every other field, the board included, is the same.
\<close>

definition light_grows :: "Game \<Rightarrow> Game \<Rightarrow> bool" where
  "light_grows g g' =
     (g' = g\<lparr>light_direct := light_direct g', light_scatter := light_scatter g'\<rparr> \<and>
      light_direct g \<subseteq> light_direct g' \<and> light_scatter g \<subseteq> light_scatter g' \<and>
      light_direct g' \<subseteq> light_direct g \<union> set (all_cells g) \<and>
      light_scatter g' \<subseteq> light_scatter g \<union> set (all_cells g))"

text \<open>The cells the scatter casts of a ledger light.\<close>

definition scatter_cells :: "Game \<Rightarrow> beams \<Rightarrow> Coord set" where
  "scatter_cells g bm =
     (\<Union>(c, dirs) \<in> set bm.
        if card dirs \<ge> 2
        then (\<Union>d \<in> dirs. set (beam_cells g (neighbors_line g (fst c) (snd c) d)))
        else {})"

definition is_crystal :: "Game \<Rightarrow> Coord \<Rightarrow> bool" where
  "is_crystal g c = (tile g (fst c) (snd c) = Inr CRYSTAL)"

text \<open>
  What \<^verbatim>\<open>apply_crystals\<close> does to the state at one cell, and the state after the cells of
  a list; \<open>lit\<close> is the union taken at the start of the pass.
\<close>

definition crystal_step :: "Game \<Rightarrow> Coord set \<Rightarrow> Coord \<Rightarrow> Game" where
  "crystal_step g lit c =
     (if is_crystal g c \<and> c \<in> lit
      then (if c \<in> light_direct g
            then g\<lparr>light_direct := light_direct g \<union> emit_dirs g c UDLR\<rparr>
            else g\<lparr>light_scatter := light_scatter g \<union> emit_dirs g c UDLR\<rparr>)
      else g)"

definition pass_state :: "Game \<Rightarrow> Coord set \<Rightarrow> Coord list \<Rightarrow> Game" where
  "pass_state g lit cs = fold (\<lambda>c s. crystal_step s lit c) cs g"

text \<open>The state after one pass of \<^verbatim>\<open>apply_crystals\<close>, and the number of crystals of a board.\<close>

definition crystal_pass :: "Game \<Rightarrow> Game" where
  "crystal_pass g = pass_state g (light_direct g \<union> light_scatter g) (all_cells g)"

definition crystal_count :: "Game \<Rightarrow> nat" where
  "crystal_count g = length (filter (is_crystal g) (all_cells g))"

text \<open>The crystals whose emission is contained in the direct set, and in the scatter set.\<close>

definition done_direct :: "Game \<Rightarrow> Coord set" where
  "done_direct g =
     {c \<in> set (all_cells g). is_crystal g c \<and> emit_dirs g c UDLR \<subseteq> light_direct g}"

definition done_scatter :: "Game \<Rightarrow> Coord set" where
  "done_scatter g =
     {c \<in> set (all_cells g). is_crystal g c \<and> emit_dirs g c UDLR \<subseteq> light_scatter g}"

text \<open>Boards of one row, used for concrete runs: the row is the list of cell numbers.\<close>

definition row_board :: "int list \<Rightarrow> Game" where
  "row_board r = board (int (length r)) 1 [r]"

text \<open>Another way to list a set of directions.\<close>

definition enum_dirs_rev :: "dir set \<Rightarrow> dir list" where
  "enum_dirs_rev s = filter (\<lambda>d. d \<in> s) [R, L, D, U]"

text \<open>
  A row with a source, two crystals and a movable block, in the state after the direct
  beam of the source has been cast.
\<close>

definition lit_row :: Game where
  "lit_row = (row_board [5,9,0,9,1])\<lparr>light_direct := {(0,1), (0,2), (0,3), (0,4)}\<rparr>"

text \<open>
  An iteration order of the light sets lists exactly the members of each set of cells of
  the board; \<open>enum_cells\<close> is one.
\<close>

definition valid_enc :: "Game \<Rightarrow> (Coord set \<Rightarrow> Coord list) \<Rightarrow> bool" where
  "valid_enc g enc = (\<forall>s. s \<subseteq> set (all_cells g) \<longrightarrow> set (enc s) = s)"

definition enum_cells :: "Game \<Rightarrow> Coord set \<Rightarrow> Coord list" where
  "enum_cells g s = filter (\<lambda>c. c \<in> s) (all_cells g)"

text \<open>
  A 3x3 game built from a list whose first two entries are the same row object
  (\<^verbatim>\<open>r = [1,0,0]; Game(Config(3,3), [r, r, [5,0,0]])\<close>): rows 0 and 1 share address 0.
\<close>

definition shared_rows :: Game where
  "shared_rows =
     \<lparr>cfg = \<lparr>width = 3, height = 3, energy_max = 20, lives_max = 3\<rparr>,
      base = [0, 0, 1],
      row_of = (\<lambda>a. if a = 0 then [1,0,0] else [5,0,0]),
      start_base = [[1,0,0],[1,0,0],[5,0,0]],
      energy = 20, lives = 3, selected = None, light_direct = {}, light_scatter = {}\<rparr>"

section \<open>Board access and single casts\<close>

lemma V_of_int_total: "0 \<le> n \<Longrightarrow> n \<le> 11 \<Longrightarrow> \<exists>t. V_of_int n = Inr t"
  unfolding V_of_int_def by auto arith

lemma tile_in_bounds:
  assumes "well_formed g" and "in_bounds g y x"
  shows "\<exists>t. tile g y x = Inr t"
proof -
  define a where "a = base g ! nat y"
  from assms have y: "0 \<le> y" "y < int (length (base g))"
    by (auto simp: well_formed_def in_bounds_def)
  then have row: "a \<in> set (base g)" by (simp add: a_def)
  with assms have x: "0 \<le> x" "x < int (length (row_of g a))"
    by (auto simp: well_formed_def in_bounds_def)
  then have "row_of g a ! nat x \<in> set (row_of g a)" by simp
  with row assms(1) have "0 \<le> row_of g a ! nat x \<and> row_of g a ! nat x \<le> 11"
    unfolding well_formed_def by blast
  then obtain t where "V_of_int (row_of g a ! nat x) = Inr t"
    using V_of_int_total by blast
  with y x show ?thesis
    by (simp add: tile_def py_getitem_def a_def)
qed

lemma line_from_in_bounds: "c \<in> set (line_from g d y x) \<Longrightarrow> in_bounds g (fst c) (snd c)"
proof (induction g d y x rule: line_from.induct)
  case (1 g d ny nx)
  then show ?case
    by (subst (asm) (2) line_from.simps) (auto split: if_splits)
qed

lemma on_board_neighbors_line: "on_board g (neighbors_line g y x d)"
  by (auto simp: on_board_def neighbors_line_def dest: line_from_in_bounds)

lemma on_board_Cons: "on_board g (c # cs) = (in_bounds g (fst c) (snd c) \<and> on_board g cs)"
  by (simp add: on_board_def)

lemma frame_light_tile [simp]:
  "tile (g\<lparr>light_direct := A\<rparr>) = tile g"
  "tile (g\<lparr>light_scatter := B\<rparr>) = tile g"
  by (simp_all add: tile_def fun_eq_iff cong: sum.case_cong)

lemma frame_light_simps [simp]:
  "in_bounds (g\<lparr>light_direct := A\<rparr>) = in_bounds g"
  "in_bounds (g\<lparr>light_scatter := B\<rparr>) = in_bounds g"
  "well_formed (g\<lparr>light_direct := A\<rparr>) = well_formed g"
  "well_formed (g\<lparr>light_scatter := B\<rparr>) = well_formed g"
  "is_block (g\<lparr>light_direct := A\<rparr>) = is_block g"
  "is_block (g\<lparr>light_scatter := B\<rparr>) = is_block g"
  by (simp_all add: in_bounds_def well_formed_def is_block_def fun_eq_iff)

lemma frame_light_lists [simp]:
  "beam_cells (g\<lparr>light_direct := A\<rparr>) cs = beam_cells g cs"
  "beam_cells (g\<lparr>light_scatter := B\<rparr>) cs = beam_cells g cs"
  "on_board (g\<lparr>light_direct := A\<rparr>) cs = on_board g cs"
  "on_board (g\<lparr>light_scatter := B\<rparr>) cs = on_board g cs"
  "line_from (g\<lparr>light_direct := A\<rparr>) d y x = line_from g d y x"
  "line_from (g\<lparr>light_scatter := B\<rparr>) d y x = line_from g d y x"
     apply (induction cs; simp)
     apply (induction cs; simp)
    apply (simp add: on_board_def)
   apply (simp add: on_board_def)
   apply (induction g d y x rule: line_from.induct)
   apply (subst line_from.simps, subst (2) line_from.simps, simp)
   apply (induction g d y x rule: line_from.induct)
   apply (subst line_from.simps, subst (2) line_from.simps, simp)
  done

lemma cast_scatter_from_loop_eq:
  "well_formed g \<Longrightarrow> on_board g cs \<Longrightarrow>
   cast_scatter_from_loop g cs = Inr (g\<lparr>light_scatter := light_scatter g \<union> set (beam_cells g cs)\<rparr>)"
proof (induction cs arbitrary: g)
  case Nil
  then show ?case by simp
next
  case (Cons c cs)
  obtain y x where c: "c = (y, x)" by (cases c)
  from Cons.prems obtain t where t: "tile g y x = Inr t"
    using tile_in_bounds[of g y x] by (auto simp: on_board_Cons c)
  show ?case
  proof (cases "t = BLOCK_MOV \<or> t = BLOCK_IMMOV")
    case True
    with t show ?thesis by (auto simp: c is_block_def)
  next
    case False
    with t have nb: "\<not> is_block g (y, x)" by (auto simp: is_block_def)
    from Cons.prems have "on_board g cs" by (simp add: on_board_Cons)
    with Cons.IH[of "g\<lparr>light_scatter := insert (y, x) (light_scatter g)\<rparr>"] Cons.prems(1)
    show ?thesis using t False nb by (simp add: c)
  qed
qed

lemma neighbors_line_frame [simp]:
  "neighbors_line (g\<lparr>light_direct := A\<rparr>) = neighbors_line g"
  "neighbors_line (g\<lparr>light_scatter := B\<rparr>) = neighbors_line g"
  by (simp_all add: neighbors_line_def fun_eq_iff)

lemma emit_dirs_frame [simp]:
  "emit_dirs (g\<lparr>light_direct := A\<rparr>) = emit_dirs g"
  "emit_dirs (g\<lparr>light_scatter := B\<rparr>) = emit_dirs g"
  by (simp_all add: emit_dirs_def fun_eq_iff)

lemma beam_cells_subset: "set (beam_cells g cs) \<subseteq> set cs"
  by (induction cs) auto

lemma beam_cells_reach:
  "cs = pre @ n # post \<Longrightarrow> \<forall>p \<in> set pre. \<not> is_block g p \<Longrightarrow> n \<in> set (beam_cells g cs)"
  by (induction pre arbitrary: cs) auto

lemma beam_cells_stop:
  "cs = pre @ b # post \<Longrightarrow> \<forall>p \<in> set pre. \<not> is_block g p \<Longrightarrow> is_block g b \<Longrightarrow>
   beam_cells g cs = pre @ [b]"
  by (induction pre arbitrary: cs) auto

lemma beam_cells_no_block: "\<forall>p \<in> set cs. \<not> is_block g p \<Longrightarrow> beam_cells g cs = cs"
  by (induction cs) auto

lemma cast_beam_direct_loop_eq:
  "well_formed g \<Longrightarrow> on_board g cs \<Longrightarrow>
   cast_beam_direct_loop g d cs bm =
     Inr (g\<lparr>light_direct := light_direct g \<union> set (beam_cells g cs)\<rparr>,
          fold (\<lambda>c b. beams_add b c d) (takeWhile (\<lambda>c. \<not> is_block g c) cs) bm)"
proof (induction cs arbitrary: g bm)
  case Nil
  then show ?case by simp
next
  case (Cons c cs)
  obtain y x where c: "c = (y, x)" by (cases c)
  from Cons.prems obtain t where t: "tile g y x = Inr t"
    using tile_in_bounds[of g y x] by (auto simp: on_board_Cons c)
  show ?case
  proof (cases "t = BLOCK_MOV \<or> t = BLOCK_IMMOV")
    case True
    with t show ?thesis by (auto simp: c is_block_def)
  next
    case False
    with t have nb: "\<not> is_block g (y, x)" by (auto simp: is_block_def)
    from Cons.prems have "on_board g cs" by (simp add: on_board_Cons)
    with Cons.IH[of "g\<lparr>light_direct := insert (y, x) (light_direct g)\<rparr>" "beams_add bm (y, x) d"]
      Cons.prems(1)
    show ?thesis using t False nb by (simp add: c)
  qed
qed

lemma cast_direct_line_from_loop_eq:
  "well_formed g \<Longrightarrow> on_board g cs \<Longrightarrow>
   cast_direct_line_from_loop g cs ch =
     Inr (g\<lparr>light_direct := light_direct g \<union> set (beam_cells g cs)\<rparr>,
          ch \<or> \<not> set (beam_cells g cs) \<subseteq> light_direct g)"
proof (induction cs arbitrary: g ch)
  case Nil
  then show ?case by simp
next
  case (Cons c cs)
  obtain y x where c: "c = (y, x)" by (cases c)
  from Cons.prems obtain t where t: "tile g y x = Inr t"
    using tile_in_bounds[of g y x] by (auto simp: on_board_Cons c)
  show ?case
  proof (cases "t = BLOCK_MOV \<or> t = BLOCK_IMMOV")
    case True
    with t show ?thesis by (auto simp: c is_block_def)
  next
    case False
    with t have nb: "\<not> is_block g (y, x)" by (auto simp: is_block_def)
    from Cons.prems have "on_board g cs" by (simp add: on_board_Cons)
    with Cons.IH[of "g\<lparr>light_direct := insert (y, x) (light_direct g)\<rparr>" "ch \<or> (y, x) \<notin> light_direct g"]
      Cons.prems(1)
    show ?thesis using t False nb by (auto simp: c)
  qed
qed

lemma cast_scatter_line_from_loop_eq:
  "well_formed g \<Longrightarrow> on_board g cs \<Longrightarrow>
   cast_scatter_line_from_loop g cs ch =
     Inr (g\<lparr>light_scatter := light_scatter g \<union> set (beam_cells g cs)\<rparr>,
          ch \<or> \<not> set (beam_cells g cs) \<subseteq> light_scatter g)"
proof (induction cs arbitrary: g ch)
  case Nil
  then show ?case by simp
next
  case (Cons c cs)
  obtain y x where c: "c = (y, x)" by (cases c)
  from Cons.prems obtain t where t: "tile g y x = Inr t"
    using tile_in_bounds[of g y x] by (auto simp: on_board_Cons c)
  show ?case
  proof (cases "t = BLOCK_MOV \<or> t = BLOCK_IMMOV")
    case True
    with t show ?thesis by (auto simp: c is_block_def)
  next
    case False
    with t have nb: "\<not> is_block g (y, x)" by (auto simp: is_block_def)
    from Cons.prems have "on_board g cs" by (simp add: on_board_Cons)
    with Cons.IH[of "g\<lparr>light_scatter := insert (y, x) (light_scatter g)\<rparr>" "ch \<or> (y, x) \<notin> light_scatter g"]
      Cons.prems(1)
    show ?thesis using t False nb by (auto simp: c)
  qed
qed

lemma cast_beam_direct_eq:
  "well_formed g \<Longrightarrow>
   cast_beam_direct g c d bm =
     Inr (g\<lparr>light_direct := light_direct g \<union> emit_dirs g c [d]\<rparr>,
          fold (\<lambda>k b. beams_add b k d)
            (takeWhile (\<lambda>k. \<not> is_block g k) (neighbors_line g (fst c) (snd c) d)) bm)"
  by (simp add: cast_beam_direct_def emit_dirs_def cast_beam_direct_loop_eq on_board_neighbors_line)

lemma cast_scatter_from_eq:
  "well_formed g \<Longrightarrow>
   cast_scatter_from g c d = Inr (g\<lparr>light_scatter := light_scatter g \<union> emit_dirs g c [d]\<rparr>)"
  by (simp add: cast_scatter_from_def emit_dirs_def cast_scatter_from_loop_eq on_board_neighbors_line)

lemma cast_direct_line_from_eq:
  "well_formed g \<Longrightarrow>
   cast_direct_line_from g c d =
     Inr (g\<lparr>light_direct := light_direct g \<union> emit_dirs g c [d]\<rparr>,
          \<not> emit_dirs g c [d] \<subseteq> light_direct g)"
  by (simp add: cast_direct_line_from_def emit_dirs_def cast_direct_line_from_loop_eq
      on_board_neighbors_line)

lemma cast_scatter_line_from_eq:
  "well_formed g \<Longrightarrow>
   cast_scatter_line_from g c d =
     Inr (g\<lparr>light_scatter := light_scatter g \<union> emit_dirs g c [d]\<rparr>,
          \<not> emit_dirs g c [d] \<subseteq> light_scatter g)"
  by (simp add: cast_scatter_line_from_def emit_dirs_def cast_scatter_line_from_loop_eq
      on_board_neighbors_line)

lemma emit_dirs_Cons: "emit_dirs g c (d # ds) = emit_dirs g c [d] \<union> emit_dirs g c ds"
  by (auto simp: emit_dirs_def)

lemma emit_dirs_Nil [simp]: "emit_dirs g c [] = {}"
  by (simp add: emit_dirs_def)

lemma scatter_dirs_eq:
  "well_formed g \<Longrightarrow>
   scatter_dirs g c ds = Inr (g\<lparr>light_scatter := light_scatter g \<union> emit_dirs g c ds\<rparr>)"
proof (induction ds arbitrary: g)
  case Nil
  then show ?case by simp
next
  case (Cons d ds)
  then show ?case
    by (simp add: cast_scatter_from_eq emit_dirs_Cons[of g c d ds] Un_assoc)
qed

lemma crystal_emit_direct_eq:
  "well_formed g \<Longrightarrow>
   crystal_emit g c True ds ch =
     Inr (g\<lparr>light_direct := light_direct g \<union> emit_dirs g c ds\<rparr>,
          ch \<or> \<not> emit_dirs g c ds \<subseteq> light_direct g)"
proof (induction ds arbitrary: g ch)
  case Nil
  then show ?case by simp
next
  case (Cons d ds)
  then show ?case
    by (auto simp: cast_direct_line_from_eq emit_dirs_Cons[of g c d ds] Un_assoc)
qed

lemma crystal_emit_scatter_eq:
  "well_formed g \<Longrightarrow>
   crystal_emit g c False ds ch =
     Inr (g\<lparr>light_scatter := light_scatter g \<union> emit_dirs g c ds\<rparr>,
          ch \<or> \<not> emit_dirs g c ds \<subseteq> light_scatter g)"
proof (induction ds arbitrary: g ch)
  case Nil
  then show ?case by simp
next
  case (Cons d ds)
  then show ?case
    by (auto simp: cast_scatter_line_from_eq emit_dirs_Cons[of g c d ds] Un_assoc)
qed

section \<open>Scattering and the first pass\<close>

lemma light_grows_refl [simp]: "light_grows g g"
  by (simp add: light_grows_def)

lemma all_cells_frame [simp]:
  "all_cells (g\<lparr>light_direct := A\<rparr>) = all_cells g"
  "all_cells (g\<lparr>light_scatter := B\<rparr>) = all_cells g"
  "is_crystal (g\<lparr>light_direct := A\<rparr>) = is_crystal g"
  "is_crystal (g\<lparr>light_scatter := B\<rparr>) = is_crystal g"
  "scatter_cells (g\<lparr>light_direct := A\<rparr>) = scatter_cells g"
  "scatter_cells (g\<lparr>light_scatter := B\<rparr>) = scatter_cells g"
  by (simp_all add: all_cells_def is_crystal_def scatter_cells_def fun_eq_iff case_prod_beta)

lemma in_all_cells: "(y, x) \<in> set (all_cells g) \<longleftrightarrow> in_bounds g y x"
  by (fastforce simp: all_cells_def in_bounds_def)

lemma on_board_all_cells: "on_board g (all_cells g)"
  by (auto simp: on_board_def in_all_cells[symmetric])

lemma on_board_subset: "on_board g cs \<Longrightarrow> set cs \<subseteq> set (all_cells g)"
  by (auto simp: on_board_def in_all_cells)

lemma emit_dirs_on_board: "emit_dirs g c ds \<subseteq> set (all_cells g)"
  using beam_cells_subset on_board_subset[OF on_board_neighbors_line]
  by (fastforce simp: emit_dirs_def)

lemma light_grows_trans:
  assumes "light_grows g g'" and "light_grows g' g''"
  shows "light_grows g g''"
proof -
  from assms(1) have e1: "g' = g\<lparr>light_direct := light_direct g', light_scatter := light_scatter g'\<rparr>"
    by (simp add: light_grows_def)
  from assms(2) have e2: "g'' = g'\<lparr>light_direct := light_direct g'', light_scatter := light_scatter g''\<rparr>"
    by (simp add: light_grows_def)
  have ac: "all_cells g' = all_cells g" by (subst e1) simp
  have e: "g'' = g\<lparr>light_direct := light_direct g'', light_scatter := light_scatter g''\<rparr>"
    by (subst e2, subst e1) simp
  from assms have a: "light_direct g \<subseteq> light_direct g'" "light_scatter g \<subseteq> light_scatter g'"
    "light_direct g' \<subseteq> light_direct g \<union> set (all_cells g)"
    "light_scatter g' \<subseteq> light_scatter g \<union> set (all_cells g)"
    "light_direct g' \<subseteq> light_direct g''" "light_scatter g' \<subseteq> light_scatter g''"
    "light_direct g'' \<subseteq> light_direct g' \<union> set (all_cells g')"
    "light_scatter g'' \<subseteq> light_scatter g' \<union> set (all_cells g')"
    by (simp_all add: light_grows_def)
  from a have "light_direct g \<subseteq> light_direct g''" "light_scatter g \<subseteq> light_scatter g''"
    "light_direct g'' \<subseteq> light_direct g \<union> set (all_cells g)"
    "light_scatter g'' \<subseteq> light_scatter g \<union> set (all_cells g)"
    unfolding ac by blast+
  with e show ?thesis unfolding light_grows_def by (intro conjI)
qed

lemma light_grows_direct:
  "X \<subseteq> set (all_cells g) \<Longrightarrow> light_grows g (g\<lparr>light_direct := light_direct g \<union> X\<rparr>)"
  by (auto simp: light_grows_def)

lemma light_grows_scatter:
  "X \<subseteq> set (all_cells g) \<Longrightarrow> light_grows g (g\<lparr>light_scatter := light_scatter g \<union> X\<rparr>)"
  by (auto simp: light_grows_def)

lemma light_grows_same:
  assumes "light_grows g g'"
  shows "tile g' = tile g" "well_formed g' = well_formed g" "in_bounds g' = in_bounds g"
    "is_block g' = is_block g" "is_crystal g' = is_crystal g" "all_cells g' = all_cells g"
    "emit_dirs g' = emit_dirs g" "neighbors_line g' = neighbors_line g"
    "scatter_cells g' = scatter_cells g" "base g' = base g" "cfg g' = cfg g"
    "row_of g' = row_of g"
    "on_board g' = on_board g" "beam_cells g' = beam_cells g"
proof -
  from assms have e: "g' = g\<lparr>light_direct := light_direct g', light_scatter := light_scatter g'\<rparr>"
    by (simp add: light_grows_def)
  show "tile g' = tile g" by (subst e) simp
  show "well_formed g' = well_formed g" by (subst e) simp
  show "in_bounds g' = in_bounds g" by (subst e) simp
  show "is_block g' = is_block g" by (subst e) simp
  show "is_crystal g' = is_crystal g" by (subst e) simp
  show "all_cells g' = all_cells g" by (subst e) simp
  show "emit_dirs g' = emit_dirs g" by (subst e) simp
  show "neighbors_line g' = neighbors_line g" by (subst e) simp
  show "scatter_cells g' = scatter_cells g" by (subst e) simp
  show "base g' = base g" by (subst e) simp
  show "row_of g' = row_of g" by (subst e) simp
  show "cfg g' = cfg g" by (subst e) simp
  show "on_board g' = on_board g" by (subst e) (simp add: fun_eq_iff)
  show "beam_cells g' = beam_cells g" by (subst e) (simp add: fun_eq_iff)
qed

lemma finite_emit_dirs [simp]: "finite (emit_dirs g c ds)"
  by (simp add: emit_dirs_def)

lemma emit_dirs_set_cong: "set ds = set ds' \<Longrightarrow> emit_dirs g c ds = emit_dirs g c ds'"
  by (simp add: emit_dirs_def)

lemma apply_scattering_eq:
  "well_formed g \<Longrightarrow> valid_en en \<Longrightarrow>
   apply_scattering en g bm = Inr (g\<lparr>light_scatter := light_scatter g \<union> scatter_cells g bm\<rparr>)"
proof (induction bm arbitrary: g)
  case Nil
  then show ?case by (simp add: scatter_cells_def)
next
  case (Cons e bm)
  obtain c dirs where e: "e = (c, dirs)" by (cases e)
  from Cons.prems(2) have en: "emit_dirs g c (en dirs) =
      (\<Union>d \<in> dirs. set (beam_cells g (neighbors_line g (fst c) (snd c) d)))"
    by (simp add: emit_dirs_def valid_en_def)
  have sc: "scatter_cells g ((c, dirs) # bm) =
      (if card dirs \<ge> 2 then emit_dirs g c (en dirs) else {}) \<union> scatter_cells g bm"
    by (simp add: scatter_cells_def en)
  show ?case
  proof (cases "card dirs \<ge> 2")
    case True
    with Cons.IH[of "g\<lparr>light_scatter := light_scatter g \<union> emit_dirs g c (en dirs)\<rparr>"] Cons.prems
    show ?thesis by (simp add: e scatter_dirs_eq sc Un_assoc)
  next
    case False
    with Cons.IH[of g] Cons.prems show ?thesis by (simp add: e sc)
  qed
qed

lemma beams_add_keys: "fst ` set (beams_add bm c d) = insert c (fst ` set bm)"
  by (induction bm c d rule: beams_add.induct) auto

lemma fold_beams_add_keys:
  "fst ` set (fold (\<lambda>k b. beams_add b k d) ks bm) = fst ` set bm \<union> set ks"
  by (induction ks arbitrary: bm) (auto simp: beams_add_keys)

lemma takeWhile_beam_cells:
  "set (takeWhile (\<lambda>k. \<not> is_block g k) cs) \<subseteq> set (beam_cells g cs)"
  by (induction cs) auto

lemma cast_beam_dirs_grows:
  "well_formed g \<Longrightarrow> fst ` set bm \<subseteq> light_direct g \<Longrightarrow>
   \<exists>g' bm'. cast_beam_dirs g c ds bm = Inr (g', bm') \<and> light_grows g g' \<and>
     light_scatter g' = light_scatter g \<and> fst ` set bm' \<subseteq> light_direct g'"
proof (induction ds arbitrary: g bm)
  case Nil
  then show ?case by simp
next
  case (Cons d ds)
  let ?g1 = "g\<lparr>light_direct := light_direct g \<union> emit_dirs g c [d]\<rparr>"
  let ?b1 = "fold (\<lambda>k b. beams_add b k d)
            (takeWhile (\<lambda>k. \<not> is_block g k) (neighbors_line g (fst c) (snd c) d)) bm"
  have step: "cast_beam_direct g c d bm = Inr (?g1, ?b1)"
    using Cons.prems(1) by (rule cast_beam_direct_eq)
  have keys: "fst ` set ?b1 \<subseteq> light_direct ?g1"
    using Cons.prems(2) takeWhile_beam_cells[of g "neighbors_line g (fst c) (snd c) d"]
    by (auto simp: fold_beams_add_keys emit_dirs_def)
  have g1: "light_grows g ?g1" by (rule light_grows_direct) (rule emit_dirs_on_board)
  from Cons.IH[of ?g1 ?b1] Cons.prems(1) keys
  obtain g' bm' where r: "cast_beam_dirs ?g1 c ds ?b1 = Inr (g', bm')" "light_grows ?g1 g'"
    "light_scatter g' = light_scatter ?g1" "fst ` set bm' \<subseteq> light_direct g'"
    by auto
  from g1 r(2) have "light_grows g g'" by (rule light_grows_trans)
  with r step show ?case by simp
qed

lemma cast_sources_grows:
  "well_formed g \<Longrightarrow> on_board g cs \<Longrightarrow> fst ` set bm \<subseteq> light_direct g \<Longrightarrow>
   \<exists>g' bm'. cast_sources g cs bm = Inr (g', bm') \<and> light_grows g g' \<and>
     light_scatter g' = light_scatter g \<and> fst ` set bm' \<subseteq> light_direct g'"
proof (induction cs arbitrary: g bm)
  case Nil
  then show ?case by simp
next
  case (Cons k cs)
  obtain y x where k: "k = (y, x)" by (cases k)
  from Cons.prems obtain t where t: "tile g y x = Inr t"
    using tile_in_bounds[of g y x] by (auto simp: on_board_Cons k)
  from Cons.prems have ob: "on_board g cs" by (simp add: on_board_Cons)
  show ?case
  proof (cases "t = SOURCE_ON")
    case True
    from cast_beam_dirs_grows[OF Cons.prems(1) Cons.prems(3), of "(y, x)" UDLR]
    obtain g1 b1 where s: "cast_beam_dirs g (y, x) UDLR bm = Inr (g1, b1)" "light_grows g g1"
      "light_scatter g1 = light_scatter g" "fst ` set b1 \<subseteq> light_direct g1"
      by blast
    from s(2) Cons.prems(1) ob have "well_formed g1" "on_board g1 cs"
      by (simp_all add: light_grows_same)
    from Cons.IH[OF this s(4)]
    obtain g' bm' where r: "cast_sources g1 cs b1 = Inr (g', bm')" "light_grows g1 g'"
      "light_scatter g' = light_scatter g1" "fst ` set bm' \<subseteq> light_direct g'"
      by blast
    from s(2) r(2) have "light_grows g g'" by (rule light_grows_trans)
    with r s t True show ?thesis by (simp add: k)
  next
    case False
    with Cons.IH[OF Cons.prems(1) ob Cons.prems(3)] t show ?thesis by (simp add: k)
  qed
qed

section \<open>Crystal refraction\<close>

lemma apply_crystals_loop_Cons:
  assumes "well_formed g" and "in_bounds g y x"
  shows "apply_crystals_loop g lit ((y, x) # cs) ch =
    (if is_crystal g (y, x) \<and> (y, x) \<in> lit
     then (if (y, x) \<in> light_direct g
           then apply_crystals_loop
                  (g\<lparr>light_direct := light_direct g \<union> emit_dirs g (y, x) UDLR\<rparr>) lit cs
                  (ch \<or> \<not> emit_dirs g (y, x) UDLR \<subseteq> light_direct g)
           else apply_crystals_loop
                  (g\<lparr>light_scatter := light_scatter g \<union> emit_dirs g (y, x) UDLR\<rparr>) lit cs
                  (ch \<or> \<not> emit_dirs g (y, x) UDLR \<subseteq> light_scatter g))
     else apply_crystals_loop g lit cs ch)"
proof -
  from assms obtain t where t: "tile g y x = Inr t"
    using tile_in_bounds by blast
  with assms(1) show ?thesis
    by (simp add: is_crystal_def crystal_emit_direct_eq crystal_emit_scatter_eq)
qed

declare apply_crystals_loop.simps(2) [simp del]

lemma pass_state_Nil [simp]: "pass_state g lit [] = g"
  by (simp add: pass_state_def)

lemma pass_state_Cons [simp]:
  "pass_state g lit (k # cs) = pass_state (crystal_step g lit k) lit cs"
  by (simp add: pass_state_def)

lemma crystal_step_grows: "light_grows g (crystal_step g lit k)"
  by (simp add: crystal_step_def light_grows_direct light_grows_scatter emit_dirs_on_board)

lemma pass_state_grows: "light_grows g (pass_state g lit cs)"
proof (induction cs arbitrary: g)
  case Nil
  show ?case by simp
next
  case (Cons k cs)
  from crystal_step_grows[of g lit k] Cons[of "crystal_step g lit k"]
  show ?case by (simp add: light_grows_trans)
qed

lemma apply_crystals_loop_eq:
  "well_formed g \<Longrightarrow> on_board g cs \<Longrightarrow>
   apply_crystals_loop g lit cs ch =
     Inr (pass_state g lit cs,
          ch \<or> light_direct (pass_state g lit cs) \<noteq> light_direct g
             \<or> light_scatter (pass_state g lit cs) \<noteq> light_scatter g)"
proof (induction cs arbitrary: g ch)
  case Nil
  then show ?case by simp
next
  case (Cons k cs)
  obtain y x where k: "k = (y, x)" by (cases k)
  from Cons.prems have ib: "in_bounds g y x" and ob: "on_board g cs"
    by (simp_all add: on_board_Cons k)
  note unf = apply_crystals_loop_Cons[OF Cons.prems(1) ib, of lit cs ch]
  define E where "E = emit_dirs g (y, x) UDLR"
  define g1 where "g1 = crystal_step g lit k"
  define p where "p = pass_state g1 lit cs"
  have g1: "light_grows g g1" unfolding g1_def by (rule crystal_step_grows)
  then have wf1: "well_formed g1" and ob1: "on_board g1 cs"
    using Cons.prems(1) ob by (simp_all add: light_grows_same)
  have "light_grows g1 p" unfolding p_def by (rule pass_state_grows)
  then have sub: "light_direct g1 \<subseteq> light_direct p" "light_scatter g1 \<subseteq> light_scatter p"
    by (simp_all add: light_grows_def)
  have pk: "pass_state g lit (k # cs) = p" by (simp add: p_def g1_def)
  have ih: "\<And>c. apply_crystals_loop g1 lit cs c =
      Inr (p, c \<or> light_direct p \<noteq> light_direct g1 \<or> light_scatter p \<noteq> light_scatter g1)"
    unfolding p_def by (rule Cons.IH[OF wf1 ob1])
  consider (dir) "is_crystal g (y, x) \<and> (y, x) \<in> lit" "(y, x) \<in> light_direct g"
    | (sca) "is_crystal g (y, x) \<and> (y, x) \<in> lit" "(y, x) \<notin> light_direct g"
    | (skip) "\<not> (is_crystal g (y, x) \<and> (y, x) \<in> lit)" by blast
  then show ?case
  proof cases
    case dir
    then have s: "g1 = g\<lparr>light_direct := light_direct g \<union> E\<rparr>"
      by (simp add: crystal_step_def k g1_def E_def)
    then have l: "light_direct g1 = light_direct g \<union> E" "light_scatter g1 = light_scatter g"
      by simp_all
    have step: "apply_crystals_loop g lit (k # cs) ch =
        apply_crystals_loop g1 lit cs (ch \<or> \<not> E \<subseteq> light_direct g)"
      unfolding k unf s E_def using dir by simp
    have "((ch \<or> \<not> E \<subseteq> light_direct g) \<or> light_direct p \<noteq> light_direct g1
            \<or> light_scatter p \<noteq> light_scatter g1) =
          (ch \<or> light_direct p \<noteq> light_direct g \<or> light_scatter p \<noteq> light_scatter g)"
      using sub l by auto
    then show ?thesis by (simp only: step ih pk)
  next
    case sca
    then have s: "g1 = g\<lparr>light_scatter := light_scatter g \<union> E\<rparr>"
      by (simp add: crystal_step_def k g1_def E_def)
    then have l: "light_scatter g1 = light_scatter g \<union> E" "light_direct g1 = light_direct g"
      by simp_all
    have step: "apply_crystals_loop g lit (k # cs) ch =
        apply_crystals_loop g1 lit cs (ch \<or> \<not> E \<subseteq> light_scatter g)"
      unfolding k unf s E_def using sca by simp
    have "((ch \<or> \<not> E \<subseteq> light_scatter g) \<or> light_direct p \<noteq> light_direct g1
            \<or> light_scatter p \<noteq> light_scatter g1) =
          (ch \<or> light_direct p \<noteq> light_direct g \<or> light_scatter p \<noteq> light_scatter g)"
      using sub l by auto
    then show ?thesis by (simp only: step ih pk)
  next
    case skip
    have s: "g1 = g" unfolding g1_def crystal_step_def k by (simp add: skip)
    have step: "apply_crystals_loop g lit (k # cs) ch = apply_crystals_loop g1 lit cs ch"
      unfolding k unf s by (simp add: skip)
    show ?thesis unfolding step ih pk unfolding s by simp
  qed
qed

lemma crystal_step_same:
  "is_crystal (crystal_step g lit k) = is_crystal g"
  "emit_dirs (crystal_step g lit k) = emit_dirs g"
  using crystal_step_grows[of g lit k] by (simp_all add: light_grows_same)

lemma crystal_step_sub:
  "light_direct g \<subseteq> light_direct (crystal_step g lit k)"
  "light_scatter g \<subseteq> light_scatter (crystal_step g lit k)"
  using crystal_step_grows[of g lit k] by (simp_all add: light_grows_def)

lemma pass_state_sub:
  "light_direct g \<subseteq> light_direct (pass_state g lit cs)"
  "light_scatter g \<subseteq> light_scatter (pass_state g lit cs)"
  using pass_state_grows[of g lit cs] by (simp_all add: light_grows_def)

lemma crystal_step_direct:
  "is_crystal g k \<Longrightarrow> k \<in> lit \<Longrightarrow> k \<in> light_direct g \<Longrightarrow>
   emit_dirs g k UDLR \<subseteq> light_direct (crystal_step g lit k)"
  by (simp add: crystal_step_def)

lemma crystal_step_scatter:
  "is_crystal g k \<Longrightarrow> k \<in> lit \<Longrightarrow> k \<notin> light_direct g \<Longrightarrow>
   emit_dirs g k UDLR \<subseteq> light_scatter (crystal_step g lit k)"
  by (simp add: crystal_step_def)

lemma crystal_step_direct_cases:
  "light_direct (crystal_step g lit k) = light_direct g \<or>
   (is_crystal g k \<and> k \<in> lit \<and> k \<in> light_direct g \<and>
    light_direct (crystal_step g lit k) = light_direct g \<union> emit_dirs g k UDLR)"
  by (simp add: crystal_step_def)

lemma crystal_step_scatter_cases:
  "light_scatter (crystal_step g lit k) = light_scatter g \<or>
   (is_crystal g k \<and> k \<in> lit \<and> k \<notin> light_direct g \<and>
    light_scatter (crystal_step g lit k) = light_scatter g \<union> emit_dirs g k UDLR)"
  by (simp add: crystal_step_def)

text \<open>A lit crystal that is in the direct set has emitted direct light by the end of the pass.\<close>

lemma pass_direct_emitted:
  "c \<in> set cs \<Longrightarrow> is_crystal g c \<Longrightarrow> c \<in> lit \<Longrightarrow> c \<in> light_direct g \<Longrightarrow>
   emit_dirs g c UDLR \<subseteq> light_direct (pass_state g lit cs)"
proof (induction cs arbitrary: g)
  case Nil
  then show ?case by simp
next
  case (Cons k cs)
  let ?g1 = "crystal_step g lit k"
  show ?case
  proof (cases "c = k")
    case True
    with Cons.prems have "emit_dirs g c UDLR \<subseteq> light_direct ?g1"
      by (simp add: crystal_step_direct)
    with pass_state_sub(1)[of ?g1 lit cs] show ?thesis by auto
  next
    case False
    with Cons.prems have "c \<in> set cs" by simp
    moreover from Cons.prems have "is_crystal ?g1 c" by (simp add: crystal_step_same)
    moreover note Cons.prems(3)
    moreover from Cons.prems crystal_step_sub(1)[of g lit k] have "c \<in> light_direct ?g1" by auto
    ultimately have "emit_dirs ?g1 c UDLR \<subseteq> light_direct (pass_state ?g1 lit cs)"
      by (rule Cons.IH)
    then show ?thesis by (simp add: crystal_step_same)
  qed
qed

text \<open>A lit crystal that is not in the direct set at the end of the pass has emitted scatter light.\<close>

lemma pass_scatter_emitted:
  "c \<in> set cs \<Longrightarrow> is_crystal g c \<Longrightarrow> c \<in> lit \<Longrightarrow> c \<notin> light_direct (pass_state g lit cs) \<Longrightarrow>
   emit_dirs g c UDLR \<subseteq> light_scatter (pass_state g lit cs)"
proof (induction cs arbitrary: g)
  case Nil
  then show ?case by simp
next
  case (Cons k cs)
  let ?g1 = "crystal_step g lit k"
  from Cons.prems(4) have nd: "c \<notin> light_direct (pass_state ?g1 lit cs)" by simp
  show ?case
  proof (cases "c = k")
    case True
    from nd pass_state_sub(1)[of ?g1 lit cs] crystal_step_sub(1)[of g lit k]
    have "c \<notin> light_direct g" by auto
    with Cons.prems True have "emit_dirs g c UDLR \<subseteq> light_scatter ?g1"
      by (simp add: crystal_step_scatter)
    with pass_state_sub(2)[of ?g1 lit cs] show ?thesis by auto
  next
    case False
    with Cons.prems have "c \<in> set cs" by simp
    moreover from Cons.prems have "is_crystal ?g1 c" by (simp add: crystal_step_same)
    ultimately have "emit_dirs ?g1 c UDLR \<subseteq> light_scatter (pass_state ?g1 lit cs)"
      using Cons.prems(3) nd by (rule Cons.IH)
    then show ?thesis by (simp add: crystal_step_same)
  qed
qed

text \<open>When every direct-lit crystal has emitted already, a pass leaves the direct set as it is.\<close>

lemma pass_direct_closed:
  "\<forall>c \<in> set cs. is_crystal g c \<and> c \<in> lit \<and> c \<in> light_direct g
       \<longrightarrow> emit_dirs g c UDLR \<subseteq> light_direct g \<Longrightarrow>
   light_direct (pass_state g lit cs) = light_direct g"
proof (induction cs arbitrary: g)
  case Nil
  then show ?case by simp
next
  case (Cons k cs)
  let ?g1 = "crystal_step g lit k"
  from Cons.prems crystal_step_direct_cases[of g lit k]
  have e: "light_direct ?g1 = light_direct g" by auto
  with Cons.prems have "\<forall>c \<in> set cs. is_crystal ?g1 c \<and> c \<in> lit \<and> c \<in> light_direct ?g1
       \<longrightarrow> emit_dirs ?g1 c UDLR \<subseteq> light_direct ?g1"
    by (simp add: crystal_step_same)
  from Cons.IH[OF this] e show ?case by simp
qed

lemma pass_scatter_closed:
  "\<forall>c \<in> set cs. is_crystal g c \<and> c \<in> lit \<and> c \<notin> light_direct g
       \<longrightarrow> emit_dirs g c UDLR \<subseteq> light_scatter g \<Longrightarrow>
   light_scatter (pass_state g lit cs) = light_scatter g"
proof (induction cs arbitrary: g)
  case Nil
  then show ?case by simp
next
  case (Cons k cs)
  let ?g1 = "crystal_step g lit k"
  from Cons.prems crystal_step_scatter_cases[of g lit k]
  have e: "light_scatter ?g1 = light_scatter g" by auto
  with Cons.prems crystal_step_sub(1)[of g lit k]
  have "\<forall>c \<in> set cs. is_crystal ?g1 c \<and> c \<in> lit \<and> c \<notin> light_direct ?g1
       \<longrightarrow> emit_dirs ?g1 c UDLR \<subseteq> light_scatter ?g1"
    by (auto simp: crystal_step_same)
  from Cons.IH[OF this] e show ?case by simp
qed

text \<open>A pass that changes a light set completes the emission of some crystal.\<close>

lemma pass_direct_progress:
  "light_direct (pass_state g lit cs) \<noteq> light_direct g \<Longrightarrow>
   \<exists>c \<in> set cs. is_crystal g c \<and> \<not> emit_dirs g c UDLR \<subseteq> light_direct g \<and>
      emit_dirs g c UDLR \<subseteq> light_direct (pass_state g lit cs)"
proof (induction cs arbitrary: g)
  case Nil
  then show ?case by simp
next
  case (Cons k cs)
  let ?g1 = "crystal_step g lit k"
  show ?case
  proof (cases "light_direct ?g1 = light_direct g")
    case True
    with Cons.prems have "light_direct (pass_state ?g1 lit cs) \<noteq> light_direct ?g1" by simp
    from Cons.IH[OF this] True show ?thesis by (auto simp: crystal_step_same)
  next
    case False
    with crystal_step_direct_cases[of g lit k]
    have k: "is_crystal g k" "light_direct ?g1 = light_direct g \<union> emit_dirs g k UDLR"
      by auto
    with False have "\<not> emit_dirs g k UDLR \<subseteq> light_direct g" by auto
    moreover from k(2) pass_state_sub(1)[of ?g1 lit cs]
    have "emit_dirs g k UDLR \<subseteq> light_direct (pass_state g lit (k # cs))" by auto
    ultimately show ?thesis using k(1) by auto
  qed
qed

lemma pass_scatter_progress:
  "light_scatter (pass_state g lit cs) \<noteq> light_scatter g \<Longrightarrow>
   \<exists>c \<in> set cs. is_crystal g c \<and> \<not> emit_dirs g c UDLR \<subseteq> light_scatter g \<and>
      emit_dirs g c UDLR \<subseteq> light_scatter (pass_state g lit cs)"
proof (induction cs arbitrary: g)
  case Nil
  then show ?case by simp
next
  case (Cons k cs)
  let ?g1 = "crystal_step g lit k"
  show ?case
  proof (cases "light_scatter ?g1 = light_scatter g")
    case True
    with Cons.prems have "light_scatter (pass_state ?g1 lit cs) \<noteq> light_scatter ?g1" by simp
    from Cons.IH[OF this] True show ?thesis by (auto simp: crystal_step_same)
  next
    case False
    with crystal_step_scatter_cases[of g lit k]
    have k: "is_crystal g k" "light_scatter ?g1 = light_scatter g \<union> emit_dirs g k UDLR"
      by auto
    with False have "\<not> emit_dirs g k UDLR \<subseteq> light_scatter g" by auto
    moreover from k(2) pass_state_sub(2)[of ?g1 lit cs]
    have "emit_dirs g k UDLR \<subseteq> light_scatter (pass_state g lit (k # cs))" by auto
    ultimately show ?thesis using k(1) by auto
  qed
qed

lemma apply_crystals_eq:
  "well_formed g \<Longrightarrow>
   apply_crystals g =
     Inr (crystal_pass g,
          light_direct (crystal_pass g) \<noteq> light_direct g \<or>
          light_scatter (crystal_pass g) \<noteq> light_scatter g)"
  by (simp add: apply_crystals_def crystal_pass_def apply_crystals_loop_eq on_board_all_cells)

lemma crystal_pass_grows: "light_grows g (crystal_pass g)"
  by (simp add: crystal_pass_def pass_state_grows)

lemma crystal_pass_fixed:
  assumes "light_direct (crystal_pass g) = light_direct g"
    and "light_scatter (crystal_pass g) = light_scatter g"
  shows "crystal_pass g = g"
proof -
  from crystal_pass_grows[of g]
  have "crystal_pass g = g\<lparr>light_direct := light_direct (crystal_pass g),
      light_scatter := light_scatter (crystal_pass g)\<rparr>"
    by (simp add: light_grows_def)
  with assms show ?thesis by simp
qed

lemma crystal_pass_direct_stable:
  assumes "light_direct (crystal_pass g) = light_direct g"
  shows "light_direct (crystal_pass (crystal_pass g)) = light_direct (crystal_pass g)"
proof -
  let ?g1 = "crystal_pass g"
  note same = light_grows_same[OF crystal_pass_grows[of g]]
  have "\<forall>c \<in> set (all_cells ?g1).
      is_crystal ?g1 c \<and> c \<in> light_direct ?g1 \<union> light_scatter ?g1 \<and> c \<in> light_direct ?g1
        \<longrightarrow> emit_dirs ?g1 c UDLR \<subseteq> light_direct ?g1"
  proof (intro ballI impI, elim conjE)
    fix c
    assume c: "c \<in> set (all_cells ?g1)" "is_crystal ?g1 c" "c \<in> light_direct ?g1"
    with assms have "c \<in> set (all_cells g)" "is_crystal g c"
      "c \<in> light_direct g \<union> light_scatter g" "c \<in> light_direct g"
      by (simp_all add: same)
    then have "emit_dirs g c UDLR \<subseteq> light_direct ?g1"
      unfolding crystal_pass_def by (rule pass_direct_emitted)
    then show "emit_dirs ?g1 c UDLR \<subseteq> light_direct ?g1" by (simp add: same)
  qed
  then show ?thesis
    unfolding crystal_pass_def[of ?g1] by (rule pass_direct_closed)
qed

lemma crystal_pass_scatter_stable:
  assumes "light_scatter (crystal_pass g) = light_scatter g"
  shows "light_scatter (crystal_pass (crystal_pass g)) = light_scatter (crystal_pass g)"
proof -
  let ?g1 = "crystal_pass g"
  note same = light_grows_same[OF crystal_pass_grows[of g]]
  have "\<forall>c \<in> set (all_cells ?g1).
      is_crystal ?g1 c \<and> c \<in> light_direct ?g1 \<union> light_scatter ?g1 \<and> c \<notin> light_direct ?g1
        \<longrightarrow> emit_dirs ?g1 c UDLR \<subseteq> light_scatter ?g1"
  proof (intro ballI impI, elim conjE)
    fix c
    assume c: "c \<in> set (all_cells ?g1)" "is_crystal ?g1 c"
      "c \<in> light_direct ?g1 \<union> light_scatter ?g1" "c \<notin> light_direct ?g1"
    with assms have "c \<in> set (all_cells g)" "is_crystal g c"
      "c \<in> light_direct g \<union> light_scatter g"
      by (auto simp: same)
    moreover from c(4) have "c \<notin> light_direct (pass_state g (light_direct g \<union> light_scatter g) (all_cells g))"
      by (simp add: crystal_pass_def)
    ultimately have "emit_dirs g c UDLR \<subseteq> light_scatter (pass_state g (light_direct g \<union> light_scatter g) (all_cells g))"
      by (rule pass_scatter_emitted)
    then have "emit_dirs g c UDLR \<subseteq> light_scatter ?g1" by (simp add: crystal_pass_def)
    then show "emit_dirs ?g1 c UDLR \<subseteq> light_scatter ?g1" by (simp add: same)
  qed
  then show ?thesis
    unfolding crystal_pass_def[of ?g1] by (rule pass_scatter_closed)
qed

lemma done_direct_mono: "done_direct g \<subseteq> done_direct (crystal_pass g)"
  using light_grows_same[OF crystal_pass_grows[of g]] crystal_pass_grows[of g]
  by (auto simp: done_direct_def light_grows_def)

lemma done_scatter_mono: "done_scatter g \<subseteq> done_scatter (crystal_pass g)"
  using light_grows_same[OF crystal_pass_grows[of g]] crystal_pass_grows[of g]
  by (auto simp: done_scatter_def light_grows_def)

lemma done_direct_grows:
  assumes "light_direct (crystal_pass g) \<noteq> light_direct g"
  shows "card (done_direct g) < card (done_direct (crystal_pass g))"
proof -
  note same = light_grows_same[OF crystal_pass_grows[of g]]
  from assms obtain c where c: "c \<in> set (all_cells g)" "is_crystal g c"
    "\<not> emit_dirs g c UDLR \<subseteq> light_direct g" "emit_dirs g c UDLR \<subseteq> light_direct (crystal_pass g)"
    unfolding crystal_pass_def using pass_direct_progress by blast
  then have "c \<in> done_direct (crystal_pass g)" "c \<notin> done_direct g"
    by (simp_all add: done_direct_def same)
  with done_direct_mono[of g] have "done_direct g \<subset> done_direct (crystal_pass g)" by blast
  moreover have "finite (done_direct (crystal_pass g))" by (simp add: done_direct_def)
  ultimately show ?thesis by (rule psubset_card_mono[rotated])
qed

lemma done_scatter_grows:
  assumes "light_scatter (crystal_pass g) \<noteq> light_scatter g"
  shows "card (done_scatter g) < card (done_scatter (crystal_pass g))"
proof -
  note same = light_grows_same[OF crystal_pass_grows[of g]]
  from assms obtain c where c: "c \<in> set (all_cells g)" "is_crystal g c"
    "\<not> emit_dirs g c UDLR \<subseteq> light_scatter g" "emit_dirs g c UDLR \<subseteq> light_scatter (crystal_pass g)"
    unfolding crystal_pass_def using pass_scatter_progress by blast
  then have "c \<in> done_scatter (crystal_pass g)" "c \<notin> done_scatter g"
    by (simp_all add: done_scatter_def same)
  with done_scatter_mono[of g] have "done_scatter g \<subset> done_scatter (crystal_pass g)" by blast
  moreover have "finite (done_scatter (crystal_pass g))" by (simp add: done_scatter_def)
  ultimately show ?thesis by (rule psubset_card_mono[rotated])
qed

lemma done_le_count:
  "card (done_direct g) \<le> crystal_count g" "card (done_scatter g) \<le> crystal_count g"
proof -
  have "done_direct g \<subseteq> set (filter (is_crystal g) (all_cells g))"
    "done_scatter g \<subseteq> set (filter (is_crystal g) (all_cells g))"
    by (auto simp: done_direct_def done_scatter_def)
  then have "card (done_direct g) \<le> card (set (filter (is_crystal g) (all_cells g)))"
    "card (done_scatter g) \<le> card (set (filter (is_crystal g) (all_cells g)))"
    by (simp_all add: card_mono)
  then show "card (done_direct g) \<le> crystal_count g" "card (done_scatter g) \<le> crystal_count g"
    using card_length[of "filter (is_crystal g) (all_cells g)"]
    by (simp_all add: crystal_count_def)
qed

lemma iter_grows: "light_grows g ((crystal_pass ^^ n) g)"
proof (induction n)
  case 0
  show ?case by simp
next
  case (Suc n)
  from Suc crystal_pass_grows[of "(crystal_pass ^^ n) g"]
  show ?case by (simp add: light_grows_trans)
qed

lemma iter_count: "crystal_count ((crystal_pass ^^ n) g) = crystal_count g"
  using light_grows_same[OF iter_grows[of g n]] by (simp add: crystal_count_def)

lemma iter_direct_bound:
  "light_direct ((crystal_pass ^^ Suc i) g) \<noteq> light_direct ((crystal_pass ^^ i) g) \<Longrightarrow>
   Suc i \<le> card (done_direct ((crystal_pass ^^ Suc i) g))"
proof (induction i)
  case 0
  then have "card (done_direct g) < card (done_direct (crystal_pass g))"
    using done_direct_grows[of g] by simp
  then show ?case by simp
next
  case (Suc i)
  let ?a = "(crystal_pass ^^ i) g"
  from Suc.prems have ne: "light_direct (crystal_pass (crystal_pass ?a)) \<noteq> light_direct (crystal_pass ?a)"
    by simp
  with crystal_pass_direct_stable[of ?a]
  have "light_direct (crystal_pass ?a) \<noteq> light_direct ?a" by blast
  with Suc.IH have "Suc i \<le> card (done_direct (crystal_pass ?a))" by simp
  also from ne have "\<dots> < card (done_direct (crystal_pass (crystal_pass ?a)))"
    by (rule done_direct_grows)
  finally show ?case by simp
qed

lemma iter_scatter_bound:
  "light_scatter ((crystal_pass ^^ Suc i) g) \<noteq> light_scatter ((crystal_pass ^^ i) g) \<Longrightarrow>
   Suc i \<le> card (done_scatter ((crystal_pass ^^ Suc i) g))"
proof (induction i)
  case 0
  then have "card (done_scatter g) < card (done_scatter (crystal_pass g))"
    using done_scatter_grows[of g] by simp
  then show ?case by simp
next
  case (Suc i)
  let ?a = "(crystal_pass ^^ i) g"
  from Suc.prems have ne: "light_scatter (crystal_pass (crystal_pass ?a)) \<noteq> light_scatter (crystal_pass ?a)"
    by simp
  with crystal_pass_scatter_stable[of ?a]
  have "light_scatter (crystal_pass ?a) \<noteq> light_scatter ?a" by blast
  with Suc.IH have "Suc i \<le> card (done_scatter (crystal_pass ?a))" by simp
  also from ne have "\<dots> < card (done_scatter (crystal_pass (crystal_pass ?a)))"
    by (rule done_scatter_grows)
  finally show ?case by simp
qed

text \<open>A pass that changes a light set is at most the \<open>crystal_count\<close>-th pass.\<close>

lemma changing_pass_bound:
  assumes "light_direct ((crystal_pass ^^ Suc i) g) \<noteq> light_direct ((crystal_pass ^^ i) g) \<or>
           light_scatter ((crystal_pass ^^ Suc i) g) \<noteq> light_scatter ((crystal_pass ^^ i) g)"
  shows "Suc i \<le> crystal_count g"
proof -
  from assms iter_direct_bound[of i g] iter_scatter_bound[of i g]
  have "Suc i \<le> card (done_direct ((crystal_pass ^^ Suc i) g)) \<or>
        Suc i \<le> card (done_scatter ((crystal_pass ^^ Suc i) g))" by blast
  with done_le_count[of "(crystal_pass ^^ Suc i) g"] iter_count[of "Suc i" g]
  show ?thesis by auto
qed

lemma crystal_loop_stop:
  "\<not> (ch \<and> n < 16) \<Longrightarrow> crystal_loop g ch n = Inr (g, ch, n)"
  by (subst crystal_loop.simps) auto

lemma crystal_loop_step:
  "well_formed g \<Longrightarrow> ch \<Longrightarrow> n < 16 \<Longrightarrow>
   crystal_loop g ch n =
     crystal_loop (crystal_pass g)
       (light_direct (crystal_pass g) \<noteq> light_direct g \<or>
        light_scatter (crystal_pass g) \<noteq> light_scatter g) (n + 1)"
  by (subst crystal_loop.simps) (simp add: apply_crystals_eq)

lemma crystal_loop_bound:
  assumes wf: "well_formed g0"
  shows "g = (crystal_pass ^^ n) g0 \<Longrightarrow> (ch \<longrightarrow> n \<le> crystal_count g0) \<Longrightarrow> n \<le> 16 \<Longrightarrow>
    \<exists>g' ch' n'. crystal_loop g ch n = Inr (g', ch', n') \<and> light_grows g g' \<and>
      n' \<le> 16 \<and> (ch' \<longrightarrow> n' = 16 \<and> 16 \<le> crystal_count g0) \<and>
      (ch \<longrightarrow> n' \<le> crystal_count g0 + 1) \<and>
      (\<not> ch \<longrightarrow> n' = n \<and> g' = g \<and> \<not> ch') \<and>
      (ch \<and> \<not> ch' \<longrightarrow> apply_crystals g' = Inr (g', False))"
proof (induction g ch n rule: crystal_loop.induct)
  case (1 g ch n)
  show ?case
  proof (cases "ch \<and> n < 16")
    case False
    then have "crystal_loop g ch n = Inr (g, ch, n)" by (rule crystal_loop_stop)
    moreover from False "1.prems" have "ch \<longrightarrow> n = 16 \<and> 16 \<le> crystal_count g0" by auto
    ultimately show ?thesis using "1.prems" by auto
  next
    case True
    define g1 where "g1 = crystal_pass g"
    define ch1 where "ch1 = (light_direct g1 \<noteq> light_direct g \<or> light_scatter g1 \<noteq> light_scatter g)"
    from "1.prems"(1) wf have wfg: "well_formed g"
      using light_grows_same(2)[OF iter_grows[of g0 n]] by simp
    have ap: "apply_crystals g = Inr (g1, ch1)"
      unfolding g1_def ch1_def using wfg by (rule apply_crystals_eq)
    have it: "g1 = (crystal_pass ^^ (n + 1)) g0"
      by (simp add: g1_def "1.prems"(1))
    have b: "ch1 \<longrightarrow> n + 1 \<le> crystal_count g0"
      using changing_pass_bound[of n g0] unfolding ch1_def g1_def "1.prems"(1) by simp
    from True have n16: "n + 1 \<le> 16" by simp
    from "1.IH"[OF True ap refl it b n16]
    obtain g' ch' n' where r: "crystal_loop g1 ch1 (n + 1) = Inr (g', ch', n')"
      "light_grows g1 g'"
      "n' \<le> 16" "ch' \<longrightarrow> n' = 16 \<and> 16 \<le> crystal_count g0"
      "ch1 \<longrightarrow> n' \<le> crystal_count g0 + 1"
      "\<not> ch1 \<longrightarrow> n' = n + 1 \<and> g' = g1 \<and> \<not> ch'"
      "ch1 \<and> \<not> ch' \<longrightarrow> apply_crystals g' = Inr (g', False)"
      by blast
    have st: "crystal_loop g ch n = Inr (g', ch', n')"
      using crystal_loop_step[OF wfg, of ch n] True r(1) by (simp add: g1_def ch1_def)
    have gr: "light_grows g g'"
      using crystal_pass_grows[of g] r(2) unfolding g1_def by (rule light_grows_trans)
    from True "1.prems"(2) have nc: "n \<le> crystal_count g0" by simp
    with r(5) r(6) have le: "n' \<le> crystal_count g0 + 1" by (cases ch1) auto
    have fx: "\<not> ch' \<longrightarrow> apply_crystals g' = Inr (g', False)"
    proof (cases ch1)
      case True
      with r(7) show ?thesis by simp
    next
      case False
      then have "light_direct (crystal_pass g) = light_direct g"
        "light_scatter (crystal_pass g) = light_scatter g"
        unfolding ch1_def g1_def by simp_all
      then have "g1 = g" unfolding g1_def by (rule crystal_pass_fixed)
      with False r(6) ap show ?thesis by simp
    qed
    from st gr r(3) r(4) le fx True show ?thesis by auto
  qed
qed

text \<open>The refraction loop as \<^verbatim>\<open>recompute_light\<close> starts it.\<close>

lemma crystal_loop_passes:
  assumes "well_formed g"
  shows "\<exists>g' ch n. crystal_loop g True 0 = Inr (g', ch, n) \<and> light_grows g g' \<and>
    n \<le> 16 \<and> n \<le> crystal_count g + 1 \<and>
    (ch \<longrightarrow> 16 \<le> crystal_count g) \<and>
    (\<not> ch \<longrightarrow> apply_crystals g' = Inr (g', False))"
  using crystal_loop_bound[OF assms, of g 0 True] by auto

section \<open>The whole recomputation\<close>

lemma scatter_cells_on_board: "scatter_cells g bm \<subseteq> set (all_cells g)"
proof
  fix c assume "c \<in> scatter_cells g bm"
  then obtain k d where "c \<in> set (beam_cells g (neighbors_line g (fst k) (snd k) d))"
    by (auto simp: scatter_cells_def split: if_splits)
  then have "c \<in> emit_dirs g k [d]" by (simp add: emit_dirs_def)
  with emit_dirs_on_board show "c \<in> set (all_cells g)" by blast
qed

lemma recompute_light_eq:
  assumes wf: "well_formed g" and en: "valid_en en"
  shows "\<exists>g1 bm g' ch n.
    cast_sources (g\<lparr>light_direct := {}, light_scatter := {}\<rparr>)
      (all_cells (g\<lparr>light_direct := {}, light_scatter := {}\<rparr>)) [] = Inr (g1, bm) \<and>
    light_grows (g\<lparr>light_direct := {}, light_scatter := {}\<rparr>) g1 \<and>
    light_scatter g1 = {} \<and> fst ` set bm \<subseteq> light_direct g1 \<and>
    crystal_loop (g1\<lparr>light_scatter := scatter_cells g bm\<rparr>) True 0 = Inr (g', ch, n) \<and>
    light_grows (g1\<lparr>light_scatter := scatter_cells g bm\<rparr>) g' \<and>
    recompute_light en g = Inr g'"
proof -
  define g0 where "g0 = g\<lparr>light_direct := {}, light_scatter := {}\<rparr>"
  have wf0: "well_formed g0" using wf by (simp add: g0_def)
  have "fst ` set ([] :: beams) \<subseteq> light_direct g0" by simp
  from cast_sources_grows[OF wf0 on_board_all_cells this]
  obtain g1 bm where s: "cast_sources g0 (all_cells g0) [] = Inr (g1, bm)" "light_grows g0 g1"
    "light_scatter g1 = light_scatter g0" "fst ` set bm \<subseteq> light_direct g1"
    by blast
  note same = light_grows_same[OF s(2)]
  have wf1: "well_formed g1" using wf0 by (simp add: same)
  have sc: "scatter_cells g1 bm = scatter_cells g bm" by (simp add: same g0_def)
  have ls1: "light_scatter g1 = {}" using s(3) by (simp add: g0_def)
  define g2 where "g2 = g1\<lparr>light_scatter := scatter_cells g bm\<rparr>"
  have a: "apply_scattering en g1 bm = Inr g2"
    using apply_scattering_eq[OF wf1 en, of bm] by (simp add: sc ls1 g2_def)
  have wf2: "well_formed g2" using wf1 by (simp add: g2_def)
  from crystal_loop_bound[OF wf2, of g2 0 True]
  obtain g' ch n where l: "crystal_loop g2 True 0 = Inr (g', ch, n)" "light_grows g2 g'"
    by auto
  have "recompute_light en g = Inr g'"
    using s(1) a l(1) by (simp add: recompute_light_def g0_def Let_def)
  with s ls1 l show ?thesis unfolding g0_def g2_def by blast
qed

lemma recompute_light_grows:
  assumes wf: "well_formed g" and en: "valid_en en"
  shows "\<exists>g'. recompute_light en g = Inr g' \<and>
    light_grows (g\<lparr>light_direct := {}, light_scatter := {}\<rparr>) g'"
proof -
  from recompute_light_eq[OF wf en]
  obtain g1 bm g' where r: "light_grows (g\<lparr>light_direct := {}, light_scatter := {}\<rparr>) g1"
    "light_scatter g1 = {}"
    "light_grows (g1\<lparr>light_scatter := scatter_cells g bm\<rparr>) g'" "recompute_light en g = Inr g'"
    by blast
  have "scatter_cells g1 bm \<subseteq> set (all_cells g1)" by (rule scatter_cells_on_board)
  then have "light_grows g1 (g1\<lparr>light_scatter := light_scatter g1 \<union> scatter_cells g1 bm\<rparr>)"
    by (rule light_grows_scatter)
  moreover have "scatter_cells g1 bm = scatter_cells g bm"
    using light_grows_same(9)[OF r(1)] by simp
  ultimately have "light_grows g1 (g1\<lparr>light_scatter := scatter_cells g bm\<rparr>)"
    using r(2) by simp
  with r(1) have "light_grows (g\<lparr>light_direct := {}, light_scatter := {}\<rparr>)
      (g1\<lparr>light_scatter := scatter_cells g bm\<rparr>)" by (rule light_grows_trans)
  from this r(3) have "light_grows (g\<lparr>light_direct := {}, light_scatter := {}\<rparr>) g'"
    by (rule light_grows_trans)
  with r(4) show ?thesis by blast
qed

lemma recompute_light_en:
  assumes "well_formed g" and "valid_en en" and "valid_en en'"
  shows "recompute_light en g = recompute_light en' g"
  using recompute_light_eq[OF assms(1,2)] recompute_light_eq[OF assms(1,3)] by force

lemma recompute_light_cleared:
  "g\<lparr>light_direct := {}, light_scatter := {}\<rparr> = h\<lparr>light_direct := {}, light_scatter := {}\<rparr> \<Longrightarrow>
   recompute_light en g = recompute_light en h"
  by (simp add: recompute_light_def Let_def)

lemma recompute_light_same:
  assumes "well_formed g" and "valid_en en" and "recompute_light en g = Inr g'"
  shows "tile g' = tile g" "well_formed g'" "in_bounds g' = in_bounds g"
    "all_cells g' = all_cells g" "cfg g' = cfg g" "base g' = base g"
    "light_direct g' \<subseteq> set (all_cells g)" "light_scatter g' \<subseteq> set (all_cells g)"
    "g'\<lparr>light_direct := {}, light_scatter := {}\<rparr> = g\<lparr>light_direct := {}, light_scatter := {}\<rparr>"
    "row_of g' = row_of g"
proof -
  from recompute_light_grows[OF assms(1,2)] assms(3)
  have gr: "light_grows (g\<lparr>light_direct := {}, light_scatter := {}\<rparr>) g'" by simp
  note same = light_grows_same[OF gr]
  show "tile g' = tile g" "well_formed g'" "in_bounds g' = in_bounds g"
    "all_cells g' = all_cells g" "cfg g' = cfg g" "base g' = base g"
    using assms(1) by (simp_all add: same)
  from gr show "light_direct g' \<subseteq> set (all_cells g)" "light_scatter g' \<subseteq> set (all_cells g)"
    by (simp_all add: light_grows_def)
  from gr have "g' = g\<lparr>light_direct := {}, light_scatter := {}\<rparr>\<lparr>light_direct := light_direct g',
      light_scatter := light_scatter g'\<rparr>" unfolding light_grows_def by blast
  then have "g'\<lparr>light_direct := {}, light_scatter := {}\<rparr> =
      g\<lparr>light_direct := {}, light_scatter := {}\<rparr>\<lparr>light_direct := light_direct g',
      light_scatter := light_scatter g'\<rparr>\<lparr>light_direct := {}, light_scatter := {}\<rparr>"
    by simp
  then show "g'\<lparr>light_direct := {}, light_scatter := {}\<rparr> = g\<lparr>light_direct := {}, light_scatter := {}\<rparr>"
    by simp
  show "row_of g' = row_of g" by (simp add: same)
qed

section \<open>Lines and iteration orders\<close>

lemma line_from_beyond:
  "c \<in> set (line_from g d y x) \<Longrightarrow>
   (case d of U \<Rightarrow> fst c \<le> y | D \<Rightarrow> y \<le> fst c | L \<Rightarrow> snd c \<le> x | R \<Rightarrow> x \<le> snd c)"
proof (induction g d y x rule: line_from.induct)
  case (1 g d ny nx)
  from "1.prems" have ib: "in_bounds g ny nx"
    by (subst (asm) line_from.simps) (auto split: if_splits)
  from "1.prems" ib have "c = (ny, nx) \<or> c \<in> set (line_from g d (ny + fst (DIRS d)) (nx + snd (DIRS d)))"
    by (subst (asm) line_from.simps) auto
  then show ?case
  proof
    assume "c = (ny, nx)"
    then show ?thesis by (cases d) auto
  next
    assume "c \<in> set (line_from g d (ny + fst (DIRS d)) (nx + snd (DIRS d)))"
    from "1.IH"[OF ib this] show ?thesis by (cases d) auto
  qed
qed

lemma distinct_line_from: "distinct (line_from g d y x)"
proof (induction g d y x rule: line_from.induct)
  case (1 g d ny nx)
  show ?case
  proof (cases "in_bounds g ny nx")
    case False
    then show ?thesis by (subst line_from.simps) simp
  next
    case True
    have "(ny, nx) \<notin> set (line_from g d (ny + fst (DIRS d)) (nx + snd (DIRS d)))"
      using line_from_beyond[of "(ny, nx)" g d "ny + fst (DIRS d)" "nx + snd (DIRS d)"]
      by (cases d) auto
    with "1.IH"[OF True] True show ?thesis by (subst line_from.simps) simp
  qed
qed

lemma distinct_neighbors_line: "distinct (neighbors_line g y x d)"
  by (simp add: neighbors_line_def distinct_line_from)

lemma valid_en_enum_dirs: "valid_en enum_dirs"
proof -
  have "\<And>d. d \<in> set [U, D, L, R]" by (case_tac d) simp_all
  then have "set [U, D, L, R] = UNIV" by blast
  then show ?thesis unfolding valid_en_def enum_dirs_def set_filter by simp
qed

lemma valid_en_enum_dirs_rev: "valid_en enum_dirs_rev"
proof -
  have "\<And>d. d \<in> set [R, L, D, U]" by (case_tac d) simp_all
  then have "set [R, L, D, U] = UNIV" by blast
  then show ?thesis unfolding valid_en_def enum_dirs_rev_def set_filter by simp
qed


section \<open>Reading the board\<close>

lemma beam_cells_next:
  assumes "cs = pre @ c # post" and "\<forall>p \<in> set pre. \<not> is_block g p"
  shows "c \<in> set (beam_cells g cs)"
    and "\<not> is_block g c \<Longrightarrow> post \<noteq> [] \<Longrightarrow> hd post \<in> set (beam_cells g cs)"
proof -
  from assms show "c \<in> set (beam_cells g cs)" by (rule beam_cells_reach)
  assume nb: "\<not> is_block g c" and ne: "post \<noteq> []"
  then obtain n rest where p: "post = n # rest" by (cases post) auto
  with assms(1) have "cs = (pre @ [c]) @ n # rest" by simp
  moreover from assms(2) nb have "\<forall>p \<in> set (pre @ [c]). \<not> is_block g p" by simp
  ultimately have "n \<in> set (beam_cells g cs)" by (rule beam_cells_reach)
  with p show "hd post \<in> set (beam_cells g cs)" by simp
qed

lemma valid_enc_enum_cells: "valid_enc g (enum_cells g)"
  by (auto simp: valid_enc_def enum_cells_def)

lemma tile_nth:
  assumes "well_formed g" and "in_bounds g y x"
  shows "tile g y x = V_of_int (row_of g (base g ! nat y) ! nat x)"
proof -
  from assms have y: "0 \<le> y" "y < int (length (base g))"
    by (auto simp: well_formed_def in_bounds_def)
  then have row: "base g ! nat y \<in> set (base g)" by simp
  with assms have x: "0 \<le> x" "x < int (length (row_of g (base g ! nat y)))"
    by (auto simp: well_formed_def in_bounds_def)
  with y show ?thesis by (simp add: tile_def py_getitem_def)
qed

lemma tile_same_row:
  assumes "well_formed g" and "in_bounds g y x" and "in_bounds g y' x"
    and "base g ! nat y = base g ! nat y'"
  shows "tile g y x = tile g y' x"
  using tile_nth[OF assms(1,2)] tile_nth[OF assms(1,3)] assms(4) by simp

lemma tile_outside:
  assumes "well_formed g"
    and "\<not> (- height (cfg g) \<le> y \<and> y < height (cfg g) \<and> - width (cfg g) \<le> x \<and> x < width (cfg g))"
  shows "tile g y x = Inl IndexError"
proof (cases "- int (length (base g)) \<le> y \<and> y < int (length (base g))")
  case False
  then show ?thesis by (auto simp: tile_def py_getitem_def)
next
  case True
  define i where "i = (if 0 \<le> y then nat y else nat (int (length (base g)) + y))"
  define a where "a = base g ! i"
  from True have i: "i < length (base g)" by (auto simp: i_def)
  then have "a \<in> set (base g)" by (simp add: a_def)
  with assms(1) have len: "length (row_of g a) = nat (width (cfg g))"
    by (simp add: well_formed_def)
  from True have r: "py_getitem (base g) y = Inr a"
    by (auto simp: py_getitem_def i_def a_def)
  from assms(1) True have "- height (cfg g) \<le> y \<and> y < height (cfg g)"
    by (auto simp: well_formed_def split: if_splits)
  with assms(2) have "\<not> (- width (cfg g) \<le> x \<and> x < width (cfg g))" by blast
  with len have "py_getitem (row_of g a) x = Inl IndexError"
    by (auto simp: py_getitem_def)
  with r show ?thesis by (simp add: tile_def)
qed

lemma tile_wraps:
  assumes "well_formed g"
    and "- height (cfg g) \<le> y" "y < height (cfg g)" "- width (cfg g) \<le> x" "x < width (cfg g)"
  shows "in_bounds g (if y < 0 then y + height (cfg g) else y) (if x < 0 then x + width (cfg g) else x)"
    and "tile g y x =
      tile g (if y < 0 then y + height (cfg g) else y) (if x < 0 then x + width (cfg g) else x)"
proof -
  let ?y = "if y < 0 then y + height (cfg g) else y"
  let ?x = "if x < 0 then x + width (cfg g) else x"
  define a where "a = base g ! nat ?y"
  from assms show ib: "in_bounds g ?y ?x" by (auto simp: in_bounds_def)
  from assms have h: "int (length (base g)) = height (cfg g)" by (auto simp: well_formed_def)
  from ib have y: "0 \<le> ?y" "?y < int (length (base g))" by (auto simp: in_bounds_def h)
  have r: "py_getitem (base g) y = Inr a"
    using assms(2,3) h by (auto simp: py_getitem_def add.commute a_def)
  from y have "a \<in> set (base g)" by (simp add: a_def)
  with assms have w: "int (length (row_of g a)) = width (cfg g)"
    by (auto simp: well_formed_def)
  have c: "py_getitem (row_of g a) x = Inr (row_of g a ! nat ?x)"
    using assms(4,5) w by (auto simp: py_getitem_def add.commute)
  have "tile g y x = V_of_int (row_of g a ! nat ?x)" by (simp add: tile_def r c)
  also have "\<dots> = tile g ?y ?x" using tile_nth[OF assms(1) ib] by (simp add: a_def)
  finally show "tile g y x = tile g ?y ?x" .
qed

section \<open>The lock transition\<close>

lemma in_bounds_cfg: "cfg g' = cfg g \<Longrightarrow> in_bounds g' = in_bounds g"
  by (simp add: in_bounds_def fun_eq_iff)

lemma all_cells_cfg: "cfg g' = cfg g \<Longrightarrow> all_cells g' = all_cells g"
  by (simp add: all_cells_def)

lemma on_board_cfg: "cfg g' = cfg g \<Longrightarrow> on_board g' = on_board g"
  by (simp add: on_board_def fun_eq_iff in_bounds_def)

lemma valid_enc_cfg: "cfg g' = cfg g \<Longrightarrow> valid_enc g' enc = valid_enc g enc"
  by (simp add: valid_enc_def all_cells_def)

lemma int_of_V_range: "0 \<le> int_of_V v \<and> int_of_V v \<le> 11"
  by (cases v) simp_all

lemma V_of_int_of_V: "V_of_int (int_of_V v) = Inr v"
  by (cases v) (simp_all add: V_of_int_def)

text \<open>
  A store into \<open>(y, x)\<close> shows at \<open>(y', x)\<close> for every row index \<open>y'\<close> that holds the row
  object of \<open>y\<close>, and nowhere else.
\<close>

lemma set_tile_in_bounds:
  assumes wf: "well_formed g" and ib: "in_bounds g y x"
  shows "\<exists>g'. set_tile g y x v = Inr g' \<and> well_formed g' \<and> cfg g' = cfg g \<and>
    base g' = base g \<and>
    light_direct g' = light_direct g \<and> light_scatter g' = light_scatter g \<and>
    (\<forall>y' x'. in_bounds g y' x' \<longrightarrow>
       tile g' y' x' = (if base g ! nat y' = base g ! nat y \<and> x' = x then Inr v
                        else tile g y' x'))"
proof -
  define a where "a = base g ! nat y"
  define row' where "row' = (row_of g a)[nat x := int_of_V v]"
  define g' where "g' = g\<lparr>row_of := (row_of g)(a := row')\<rparr>"
  from wf ib have y: "0 \<le> y" "y < int (length (base g))"
    by (auto simp: well_formed_def in_bounds_def)
  then have ain: "a \<in> set (base g)" by (simp add: a_def)
  with wf ib have x: "0 \<le> x" "x < int (length (row_of g a))"
    by (auto simp: well_formed_def in_bounds_def)
  have st: "set_tile g y x v = Inr g'"
    using y x by (simp add: set_tile_def py_getitem_def py_setitem_def a_def[symmetric]
        row'_def g'_def)
  have cfg: "cfg g' = cfg g" and bs: "base g' = base g"
    and ld: "light_direct g' = light_direct g" and ls: "light_scatter g' = light_scatter g"
    by (simp_all add: g'_def)
  have ro: "\<And>b. row_of g' b = (if b = a then row' else row_of g b)"
    by (simp add: g'_def)
  have wf': "well_formed g'"
    unfolding well_formed_def
  proof (intro conjI ballI)
    show "length (base g') = nat (height (cfg g'))"
      using wf by (simp add: bs cfg well_formed_def)
  next
    fix b assume b: "b \<in> set (base g')"
    then have bin: "b \<in> set (base g)" by (simp add: bs)
    show "length (row_of g' b) = nat (width (cfg g'))"
      using wf bin ain by (simp add: ro row'_def cfg well_formed_def)
    fix n assume n: "n \<in> set (row_of g' b)"
    have "n = int_of_V v \<or> (\<exists>q \<in> set (base g). n \<in> set (row_of g q))"
    proof (cases "b = a")
      case True
      with n have "n \<in> set ((row_of g a)[nat x := int_of_V v])" by (simp add: ro row'_def)
      with set_update_subset_insert[of "row_of g a" "nat x" "int_of_V v"] ain
      show ?thesis by blast
    next
      case False
      with n bin show ?thesis by (auto simp: ro)
    qed
    then have "0 \<le> n \<and> n \<le> 11"
    proof
      assume "n = int_of_V v"
      with int_of_V_range[of v] show ?thesis by simp
    next
      assume "\<exists>q \<in> set (base g). n \<in> set (row_of g q)"
      then obtain q where "q \<in> set (base g)" "n \<in> set (row_of g q)" by blast
      with wf show ?thesis unfolding well_formed_def by blast
    qed
    then show "0 \<le> n" "n \<le> 11" by simp_all
  qed
  have tl: "\<forall>y' x'. in_bounds g y' x' \<longrightarrow>
       tile g' y' x' = (if base g ! nat y' = base g ! nat y \<and> x' = x then Inr v
                        else tile g y' x')"
  proof (intro allI impI)
    fix y' x' assume ib': "in_bounds g y' x'"
    then have ib'': "in_bounds g' y' x'" by (simp add: in_bounds_cfg[OF cfg])
    define b where "b = base g ! nat y'"
    from wf ib' have y': "0 \<le> y'" "nat y' < length (base g)"
      by (auto simp: well_formed_def in_bounds_def)
    then have "b \<in> set (base g)" by (simp add: b_def)
    with wf ib' have x': "0 \<le> x'" "nat x' < length (row_of g b)"
      by (auto simp: well_formed_def in_bounds_def)
    have t': "tile g' y' x' = V_of_int (row_of g' b ! nat x')"
      using tile_nth[OF wf' ib''] by (simp add: bs b_def)
    have t: "tile g y' x' = V_of_int (row_of g b ! nat x')"
      using tile_nth[OF wf ib'] by (simp add: b_def)
    show "tile g' y' x' = (if base g ! nat y' = base g ! nat y \<and> x' = x then Inr v
                        else tile g y' x')"
    proof (cases "b = a")
      case False
      then show ?thesis unfolding t' t by (simp add: ro a_def b_def)
    next
      case True
      show ?thesis
      proof (cases "x' = x")
        case True
        with \<open>b = a\<close> x x' show ?thesis
          unfolding t' t by (simp add: ro row'_def a_def[symmetric] b_def[symmetric] V_of_int_of_V)
      next
        case False
        with \<open>b = a\<close> x x' x' have "nat x' \<noteq> nat x" by simp
        with \<open>b = a\<close> False show ?thesis
          unfolding t' t by (simp add: ro row'_def a_def[symmetric] b_def[symmetric])
      qed
    qed
  qed
  from st wf' cfg bs ld ls tl show ?thesis by (intro exI[of _ g']) simp
qed

text \<open>
  The lock loop: a cell ends as \<^verbatim>\<open>BLOCK_IMMOV\<close> when it held \<^verbatim>\<open>BLOCK_MOV\<close> and the list
  has a cell of its column in a row index that holds the same row object; every other
  cell keeps its kind.
\<close>

lemma lock_blocks_eq:
  "well_formed g \<Longrightarrow> on_board g cs \<Longrightarrow>
   \<exists>g'. lock_blocks g cs = Inr g' \<and> well_formed g' \<and> cfg g' = cfg g \<and> base g' = base g \<and>
     light_direct g' = light_direct g \<and> light_scatter g' = light_scatter g \<and>
     (\<forall>y x. in_bounds g y x \<longrightarrow>
        tile g' y x =
          (if tile g y x = Inr BLOCK_MOV \<and>
              (\<exists>y'. (y', x) \<in> set cs \<and> base g ! nat y' = base g ! nat y)
           then Inr BLOCK_IMMOV else tile g y x))"
proof (induction cs arbitrary: g)
  case Nil
  then show ?case by simp
next
  case (Cons k cs)
  obtain ky kx where k: "k = (ky, kx)" by (cases k)
  from Cons.prems have ib: "in_bounds g ky kx" and ob: "on_board g cs"
    by (simp_all add: on_board_Cons k)
  from tile_in_bounds[OF Cons.prems(1) ib] obtain t where t: "tile g ky kx = Inr t" by blast
  show ?case
  proof (cases "t = BLOCK_MOV")
    case True
    from set_tile_in_bounds[OF Cons.prems(1) ib, of BLOCK_IMMOV]
    obtain g1 where s: "set_tile g ky kx BLOCK_IMMOV = Inr g1 \<and> well_formed g1 \<and> cfg g1 = cfg g \<and>
      base g1 = base g \<and>
      light_direct g1 = light_direct g \<and> light_scatter g1 = light_scatter g \<and>
      (\<forall>y' x'. in_bounds g y' x' \<longrightarrow>
         tile g1 y' x' = (if base g ! nat y' = base g ! nat ky \<and> x' = kx then Inr BLOCK_IMMOV
                          else tile g y' x'))"
      by (elim exE) (rule that)
    note s1 = s[THEN conjunct1] and s2 = s[THEN conjunct2, THEN conjunct1]
      and s3 = s[THEN conjunct2, THEN conjunct2, THEN conjunct1]
      and s4 = s[THEN conjunct2, THEN conjunct2, THEN conjunct2, THEN conjunct1]
      and s5 = s[THEN conjunct2, THEN conjunct2, THEN conjunct2, THEN conjunct2, THEN conjunct1]
      and s6 = s[THEN conjunct2, THEN conjunct2, THEN conjunct2, THEN conjunct2, THEN conjunct2,
                 THEN conjunct1]
      and s7 = s[THEN conjunct2, THEN conjunct2, THEN conjunct2, THEN conjunct2, THEN conjunct2,
                 THEN conjunct2]
    from ob have ob1: "on_board g1 cs" by (simp add: on_board_cfg[OF s3])
    from Cons.IH[OF s2 ob1]
    obtain g' where r: "lock_blocks g1 cs = Inr g' \<and> well_formed g' \<and> cfg g' = cfg g1 \<and>
      base g' = base g1 \<and>
      light_direct g' = light_direct g1 \<and> light_scatter g' = light_scatter g1 \<and>
      (\<forall>y x. in_bounds g1 y x \<longrightarrow>
        tile g' y x =
          (if tile g1 y x = Inr BLOCK_MOV \<and>
              (\<exists>y'. (y', x) \<in> set cs \<and> base g1 ! nat y' = base g1 ! nat y)
           then Inr BLOCK_IMMOV else tile g1 y x))"
      by (elim exE) (rule that)
    note r1 = r[THEN conjunct1] and r2 = r[THEN conjunct2, THEN conjunct1]
      and r3 = r[THEN conjunct2, THEN conjunct2, THEN conjunct1]
      and r4 = r[THEN conjunct2, THEN conjunct2, THEN conjunct2, THEN conjunct1]
      and r5 = r[THEN conjunct2, THEN conjunct2, THEN conjunct2, THEN conjunct2, THEN conjunct1]
      and r6 = r[THEN conjunct2, THEN conjunct2, THEN conjunct2, THEN conjunct2, THEN conjunct2,
                 THEN conjunct1]
      and r7 = r[THEN conjunct2, THEN conjunct2, THEN conjunct2, THEN conjunct2, THEN conjunct2,
                 THEN conjunct2]
    have l: "lock_blocks g (k # cs) = Inr g'" using t True s1 r1 by (simp add: k)
    have "\<forall>y x. in_bounds g y x \<longrightarrow>
        tile g' y x =
          (if tile g y x = Inr BLOCK_MOV \<and>
              (\<exists>y'. (y', x) \<in> set (k # cs) \<and> base g ! nat y' = base g ! nat y)
           then Inr BLOCK_IMMOV else tile g y x)"
    proof (intro allI impI)
      fix y x assume i: "in_bounds g y x"
      then have i1: "in_bounds g1 y x" by (simp add: in_bounds_cfg[OF s3])
      note a = r7[rule_format, OF i1, unfolded s4] and b = s7[rule_format, OF i]
      show "tile g' y x =
          (if tile g y x = Inr BLOCK_MOV \<and>
              (\<exists>y'. (y', x) \<in> set (k # cs) \<and> base g ! nat y' = base g ! nat y)
           then Inr BLOCK_IMMOV else tile g y x)"
      proof (cases "base g ! nat y = base g ! nat ky \<and> x = kx")
        case hit: True
        then have ibk: "in_bounds g ky x" using ib by simp
        from tile_same_row[OF Cons.prems(1) i ibk] hit t True
        have m: "tile g y x = Inr BLOCK_MOV" by simp
        from hit have "\<exists>y'. (y', x) \<in> set (k # cs) \<and> base g ! nat y' = base g ! nat y"
          by (auto simp: k)
        with a b hit m show ?thesis by simp
      next
        case miss: False
        have "(\<exists>y'. (y', x) \<in> set (k # cs) \<and> base g ! nat y' = base g ! nat y) =
              (\<exists>y'. (y', x) \<in> set cs \<and> base g ! nat y' = base g ! nat y)"
          using miss by (auto simp: k)
        with a b miss show ?thesis by simp
      qed
    qed
    with l r2 r3 r4 r5 r6 s3 s4 s5 s6 show ?thesis by (intro exI[of _ g']) simp
  next
    case False
    from Cons.IH[OF Cons.prems(1) ob]
    obtain g' where r: "lock_blocks g cs = Inr g' \<and> well_formed g' \<and> cfg g' = cfg g \<and>
      base g' = base g \<and>
      light_direct g' = light_direct g \<and> light_scatter g' = light_scatter g \<and>
      (\<forall>y x. in_bounds g y x \<longrightarrow>
        tile g' y x =
          (if tile g y x = Inr BLOCK_MOV \<and>
              (\<exists>y'. (y', x) \<in> set cs \<and> base g ! nat y' = base g ! nat y)
           then Inr BLOCK_IMMOV else tile g y x))"
      by (elim exE) (rule that)
    note r1 = r[THEN conjunct1] and r2 = r[THEN conjunct2, THEN conjunct1]
      and r3 = r[THEN conjunct2, THEN conjunct2, THEN conjunct1]
      and r4 = r[THEN conjunct2, THEN conjunct2, THEN conjunct2, THEN conjunct1]
      and r5 = r[THEN conjunct2, THEN conjunct2, THEN conjunct2, THEN conjunct2, THEN conjunct1]
      and r6 = r[THEN conjunct2, THEN conjunct2, THEN conjunct2, THEN conjunct2, THEN conjunct2,
                 THEN conjunct1]
      and r7 = r[THEN conjunct2, THEN conjunct2, THEN conjunct2, THEN conjunct2, THEN conjunct2,
                 THEN conjunct2]
    have l: "lock_blocks g (k # cs) = Inr g'" using t False r1 by (simp add: k)
    have "\<forall>y x. in_bounds g y x \<longrightarrow>
        tile g' y x =
          (if tile g y x = Inr BLOCK_MOV \<and>
              (\<exists>y'. (y', x) \<in> set (k # cs) \<and> base g ! nat y' = base g ! nat y)
           then Inr BLOCK_IMMOV else tile g y x)"
    proof (intro allI impI)
      fix y x assume i: "in_bounds g y x"
      note a = r7[rule_format, OF i]
      show "tile g' y x =
          (if tile g y x = Inr BLOCK_MOV \<and>
              (\<exists>y'. (y', x) \<in> set (k # cs) \<and> base g ! nat y' = base g ! nat y)
           then Inr BLOCK_IMMOV else tile g y x)"
      proof (cases "tile g y x = Inr BLOCK_MOV")
        case nm: False
        with a show ?thesis by simp
      next
        case m: True
        have "\<not> (base g ! nat ky = base g ! nat y \<and> kx = x)"
        proof
          assume h: "base g ! nat ky = base g ! nat y \<and> kx = x"
          then have ibk: "in_bounds g ky x" using ib by simp
          from tile_same_row[OF Cons.prems(1) i ibk] h t have "tile g y x = Inr t" by simp
          with m False show False by simp
        qed
        then have "(\<exists>y'. (y', x) \<in> set (k # cs) \<and> base g ! nat y' = base g ! nat y) =
              (\<exists>y'. (y', x) \<in> set cs \<and> base g ! nat y' = base g ! nat y)"
          by (auto simp: k)
        with a show ?thesis by simp
      qed
    qed
    with l r2 r3 r4 r5 r6 show ?thesis by (intro exI[of _ g']) simp
  qed
qed

lemma after_change_eq:
  assumes wf: "well_formed g" and en: "valid_en en" and enc: "valid_enc g enc"
  shows "\<exists>g1 g3. recompute_light en g = Inr g1 \<and> after_change en enc g = Inr g3 \<and>
    well_formed g3 \<and> cfg g3 = cfg g \<and> base g3 = base g \<and>
    light_direct g1 \<subseteq> set (all_cells g) \<and>
    (\<forall>y x. in_bounds g y x \<longrightarrow>
       tile g3 y x =
         (if tile g y x = Inr BLOCK_MOV \<and>
             (\<exists>y'. (y', x) \<in> light_direct g1 \<and> base g ! nat y' = base g ! nat y)
          then Inr BLOCK_IMMOV else tile g y x))"
proof -
  from recompute_light_grows[OF wf en] obtain g1 where r1: "recompute_light en g = Inr g1"
    by blast
  note s1 = recompute_light_same[OF wf en r1]
  from enc s1(7) have e: "set (enc (light_direct g1)) = light_direct g1"
    by (simp add: valid_enc_def)
  have ob: "on_board g1 (enc (light_direct g1))"
    using s1(7) unfolding on_board_def e s1(3) by (auto simp: in_all_cells[symmetric])
  from lock_blocks_eq[OF s1(2) ob]
  obtain g2 where l: "lock_blocks g1 (enc (light_direct g1)) = Inr g2 \<and> well_formed g2 \<and>
    cfg g2 = cfg g1 \<and> base g2 = base g1 \<and>
    light_direct g2 = light_direct g1 \<and> light_scatter g2 = light_scatter g1 \<and>
    (\<forall>y x. in_bounds g1 y x \<longrightarrow>
        tile g2 y x =
          (if tile g1 y x = Inr BLOCK_MOV \<and>
              (\<exists>y'. (y', x) \<in> set (enc (light_direct g1)) \<and> base g1 ! nat y' = base g1 ! nat y)
           then Inr BLOCK_IMMOV else tile g1 y x))"
    by (elim exE) (rule that)
  note l1 = l[THEN conjunct1] and l2 = l[THEN conjunct2, THEN conjunct1]
    and l3 = l[THEN conjunct2, THEN conjunct2, THEN conjunct1]
    and l4 = l[THEN conjunct2, THEN conjunct2, THEN conjunct2, THEN conjunct1]
    and l7 = l[THEN conjunct2, THEN conjunct2, THEN conjunct2, THEN conjunct2, THEN conjunct2,
               THEN conjunct2]
  from recompute_light_grows[OF l2 en] obtain g3 where r3: "recompute_light en g2 = Inr g3"
    by blast
  note s3 = recompute_light_same[OF l2 en r3]
  have a: "after_change en enc g = Inr g3" by (simp add: after_change_def r1 l1 r3)
  have t: "\<forall>y x. in_bounds g y x \<longrightarrow>
       tile g3 y x =
         (if tile g y x = Inr BLOCK_MOV \<and>
             (\<exists>y'. (y', x) \<in> light_direct g1 \<and> base g ! nat y' = base g ! nat y)
          then Inr BLOCK_IMMOV else tile g y x)"
  proof (intro allI impI)
    fix y x assume i: "in_bounds g y x"
    then have i1: "in_bounds g1 y x" by (simp add: s1(3))
    from l7[rule_format, OF i1]
    show "tile g3 y x =
         (if tile g y x = Inr BLOCK_MOV \<and>
             (\<exists>y'. (y', x) \<in> light_direct g1 \<and> base g ! nat y' = base g ! nat y)
          then Inr BLOCK_IMMOV else tile g y x)"
      unfolding s3(1) s1(1) s1(6) e .
  qed
  have "cfg g3 = cfg g" "base g3 = base g" by (simp_all add: s3(5) s3(6) l3 l4 s1(5) s1(6))
  with r1 a s3(2) s1(7) t show ?thesis by (intro exI[of _ g1] exI[of _ g3]) simp
qed

section \<open>Scenario A\<close>

text \<open>
  Claim C1. On the 5x5 board that is empty except for \<^verbatim>\<open>SOURCE_ON\<close> at (2,0),
  \<^verbatim>\<open>recompute_light\<close> returns, for every iteration order of the direction sets, with
  the direct set equal to the row and the column of the source without the source's
  own cell, and with an empty scatter set; (2,0) is in neither set.
\<close>

theorem C1_scenario_A:
  "(case recompute_light en scenario_A of
      Inl e \<Rightarrow> False
    | Inr g \<Rightarrow>
        light_direct g = {(2,1), (2,2), (2,3), (2,4), (1,0), (0,0), (3,0), (4,0)} \<and>
        light_scatter g = {} \<and>
        (2,0) \<notin> light_direct g \<and> (2,0) \<notin> light_scatter g)"
  by code_simp

section \<open>Obstacle opacity\<close>

text \<open>
  Claim C2. For every origin, direction and well-formed board: when the line of a
  direct cast meets a block \<open>b\<close> (movable or immovable) with no block before it, the
  cast returns, \<open>b\<close> is in the direct set afterwards, and no cell of the line beyond
  \<open>b\<close> is added: the direct set grows by the cells before \<open>b\<close> and \<open>b\<close> itself.
\<close>

theorem C2_block_stops_direct_beam:
  assumes "well_formed g"
    and "neighbors_line g (fst origin) (snd origin) d = pre @ b # post"
    and "\<forall>p \<in> set pre. \<not> is_block g p"
    and "is_block g b"
  shows "\<exists>g' bm'. cast_beam_direct g origin d bm = Inr (g', bm') \<and>
           b \<in> light_direct g' \<and>
           (\<forall>c \<in> set post. c \<in> light_direct g' \<longrightarrow> c \<in> light_direct g) \<and>
           light_direct g' = light_direct g \<union> set pre \<union> {b}"
proof -
  let ?line = "neighbors_line g (fst origin) (snd origin) d"
  have bc: "beam_cells g ?line = pre @ [b]"
    using assms(2,3,4) by (rule beam_cells_stop)
  from distinct_neighbors_line[of g "fst origin" "snd origin" d] assms(2)
  have dis: "set post \<inter> (set pre \<union> {b}) = {}" by auto
  let ?g' = "g\<lparr>light_direct := light_direct g \<union> emit_dirs g origin [d]\<rparr>"
  have e: "emit_dirs g origin [d] = set pre \<union> {b}" by (simp add: emit_dirs_def bc)
  have "cast_beam_direct g origin d bm = Inr (?g', fold (\<lambda>k b. beams_add b k d)
            (takeWhile (\<lambda>k. \<not> is_block g k) ?line) bm)"
    using assms(1) by (rule cast_beam_direct_eq)
  moreover have "light_direct ?g' = light_direct g \<union> set pre \<union> {b}" by (simp add: e Un_assoc)
  moreover from this dis have "\<forall>c \<in> set post. c \<in> light_direct ?g' \<longrightarrow> c \<in> light_direct g"
    by auto
  moreover from calculation(2) have "b \<in> light_direct ?g'" by simp
  ultimately show ?thesis by blast
qed

text \<open>The theorem at a row with a movable block two cells right of the origin.\<close>

theorem C2_witness:
  "well_formed (row_board [5,0,1,0,0]) \<and>
   neighbors_line (row_board [5,0,1,0,0]) (fst (0,0)) (snd (0,0)) R = [(0,1)] @ (0,2) # [(0,3), (0,4)] \<and>
   \<not> is_block (row_board [5,0,1,0,0]) (0,1) \<and>
   is_block (row_board [5,0,1,0,0]) (0,2) \<and>
   (\<exists>g' bm'. cast_beam_direct (row_board [5,0,1,0,0]) (0,0) R [] = Inr (g', bm') \<and>
           (0,2) \<in> light_direct g' \<and>
           (\<forall>c \<in> set [(0,3), (0,4)]. c \<in> light_direct g' \<longrightarrow> c \<in> light_direct (row_board [5,0,1,0,0])) \<and>
           light_direct g' = light_direct (row_board [5,0,1,0,0]) \<union> set [(0,1)] \<union> {(0,2)})"
proof -
  have h1: "well_formed (row_board [5,0,1,0,0])" by code_simp
  have h2: "neighbors_line (row_board [5,0,1,0,0]) (fst (0,0)) (snd (0,0)) R = [(0,1)] @ (0,2) # [(0,3), (0,4)]"
    by code_simp
  have h3': "\<not> is_block (row_board [5,0,1,0,0]) (0,1)" by code_simp
  then have h3: "\<forall>p \<in> set [(0,1)]. \<not> is_block (row_board [5,0,1,0,0]) p" by simp
  have h4: "is_block (row_board [5,0,1,0,0]) (0,2)" by code_simp
  from C2_block_stops_direct_beam[OF h1 h2 h3 h4, of "[]"] h1 h2 h3' h4 show ?thesis by blast
qed

section \<open>Scattering beyond intersections\<close>

text \<open>
  Claim C3, as stated, fails: a scatter cast stops at the first block like every cast.
  On the row \<^verbatim>\<open>SOURCE_ON, BG, SOURCE_ON, BLOCK_IMMOV, BG\<close> the ledger entry of (0,1) holds
  the two directions L and R, the cell (0,4) lies beyond (0,1) in direction R, and
  (0,4) is not in the scatter set after \<^verbatim>\<open>recompute_light\<close>.
\<close>

theorem C3_counterexample:
  "map_sum id snd (cast_sources (row_board [5,0,5,2,0]) (all_cells (row_board [5,0,5,2,0])) []) =
      Inr [((0,1), {L, R}), ((0,2), {R}), ((0,0), {L})] \<and>
   neighbors_line (row_board [5,0,5,2,0]) 0 1 R = [(0,2), (0,3), (0,4)] \<and>
   map_sum id light_scatter (recompute_light enum_dirs (row_board [5,0,5,2,0])) =
      Inr {(0,0), (0,2), (0,3)} \<and>
   (0,4) \<notin> {(0,0), (0,2), (0,3) :: Coord}"
  by code_simp

text \<open>
  Claim C3, amended. After the first pass of \<^verbatim>\<open>recompute_light\<close> on a well-formed board,
  for every ledger entry with two or more directions and each of its directions, the
  cells beyond the entry's coordinate in that direction, up to and including the first
  block (all of them when there is none), are in the scatter set when
  \<^verbatim>\<open>recompute_light\<close> returns, and the coordinate itself is in the direct set.
\<close>

theorem C3_scatter_beyond_intersections:
  assumes "well_formed g" and "valid_en en"
  shows "\<exists>g1 bm g'.
    cast_sources (g\<lparr>light_direct := {}, light_scatter := {}\<rparr>)
      (all_cells (g\<lparr>light_direct := {}, light_scatter := {}\<rparr>)) [] = Inr (g1, bm) \<and>
    recompute_light en g = Inr g' \<and>
    (\<forall>(c, dirs) \<in> set bm. 2 \<le> card dirs \<longrightarrow>
       c \<in> light_direct g' \<and>
       (\<forall>d \<in> dirs.
          set (beam_cells g (neighbors_line g (fst c) (snd c) d)) \<subseteq> light_scatter g' \<and>
          ((\<forall>p \<in> set (neighbors_line g (fst c) (snd c) d). \<not> is_block g p) \<longrightarrow>
             set (neighbors_line g (fst c) (snd c) d) \<subseteq> light_scatter g')))"
proof -
  from recompute_light_eq[OF assms]
  obtain g1 bm g' where r:
    "cast_sources (g\<lparr>light_direct := {}, light_scatter := {}\<rparr>)
      (all_cells (g\<lparr>light_direct := {}, light_scatter := {}\<rparr>)) [] = Inr (g1, bm)"
    "fst ` set bm \<subseteq> light_direct g1"
    "light_grows (g1\<lparr>light_scatter := scatter_cells g bm\<rparr>) g'"
    "recompute_light en g = Inr g'"
    by blast
  from r(3) have sub: "light_direct g1 \<subseteq> light_direct g'" "scatter_cells g bm \<subseteq> light_scatter g'"
    by (simp_all add: light_grows_def)
  have "\<forall>(c, dirs) \<in> set bm. 2 \<le> card dirs \<longrightarrow>
       c \<in> light_direct g' \<and>
       (\<forall>d \<in> dirs.
          set (beam_cells g (neighbors_line g (fst c) (snd c) d)) \<subseteq> light_scatter g' \<and>
          ((\<forall>p \<in> set (neighbors_line g (fst c) (snd c) d). \<not> is_block g p) \<longrightarrow>
             set (neighbors_line g (fst c) (snd c) d) \<subseteq> light_scatter g'))"
  proof (intro ballI, clarify)
    fix c dirs assume m: "(c, dirs) \<in> set bm" and k: "2 \<le> card dirs"
    from m r(2) sub(1) have "c \<in> light_direct g'" by force
    moreover have "\<forall>d \<in> dirs.
          set (beam_cells g (neighbors_line g (fst c) (snd c) d)) \<subseteq> light_scatter g' \<and>
          ((\<forall>p \<in> set (neighbors_line g (fst c) (snd c) d). \<not> is_block g p) \<longrightarrow>
             set (neighbors_line g (fst c) (snd c) d) \<subseteq> light_scatter g')"
    proof
      fix d assume "d \<in> dirs"
      with m k have "set (beam_cells g (neighbors_line g (fst c) (snd c) d)) \<subseteq> scatter_cells g bm"
        unfolding scatter_cells_def by force
      with sub(2) have b: "set (beam_cells g (neighbors_line g (fst c) (snd c) d)) \<subseteq> light_scatter g'"
        by blast
      then show "set (beam_cells g (neighbors_line g (fst c) (snd c) d)) \<subseteq> light_scatter g' \<and>
          ((\<forall>p \<in> set (neighbors_line g (fst c) (snd c) d). \<not> is_block g p) \<longrightarrow>
             set (neighbors_line g (fst c) (snd c) d) \<subseteq> light_scatter g')"
        using beam_cells_no_block[of "neighbors_line g (fst c) (snd c) d" g] by auto
    qed
    ultimately show "c \<in> light_direct g' \<and>
       (\<forall>d \<in> dirs.
          set (beam_cells g (neighbors_line g (fst c) (snd c) d)) \<subseteq> light_scatter g' \<and>
          ((\<forall>p \<in> set (neighbors_line g (fst c) (snd c) d). \<not> is_block g p) \<longrightarrow>
             set (neighbors_line g (fst c) (snd c) d) \<subseteq> light_scatter g'))"
      by blast
  qed
  with r(1,4) show ?thesis by blast
qed

text \<open>The theorem at the row of the counterexample.\<close>

theorem C3_witness:
  "well_formed (row_board [5,0,5,2,0]) \<and> valid_en enum_dirs \<and>
   (\<exists>g1 bm g'.
    cast_sources ((row_board [5,0,5,2,0])\<lparr>light_direct := {}, light_scatter := {}\<rparr>)
      (all_cells ((row_board [5,0,5,2,0])\<lparr>light_direct := {}, light_scatter := {}\<rparr>)) [] = Inr (g1, bm) \<and>
    recompute_light enum_dirs (row_board [5,0,5,2,0]) = Inr g' \<and>
    (\<forall>(c, dirs) \<in> set bm. 2 \<le> card dirs \<longrightarrow>
       c \<in> light_direct g' \<and>
       (\<forall>d \<in> dirs.
          set (beam_cells (row_board [5,0,5,2,0])
            (neighbors_line (row_board [5,0,5,2,0]) (fst c) (snd c) d)) \<subseteq> light_scatter g' \<and>
          ((\<forall>p \<in> set (neighbors_line (row_board [5,0,5,2,0]) (fst c) (snd c) d).
              \<not> is_block (row_board [5,0,5,2,0]) p) \<longrightarrow>
             set (neighbors_line (row_board [5,0,5,2,0]) (fst c) (snd c) d) \<subseteq> light_scatter g'))))"
proof -
  have h: "well_formed (row_board [5,0,5,2,0])" by code_simp
  from C3_scatter_beyond_intersections[OF h valid_en_enum_dirs] h valid_en_enum_dirs
  show ?thesis by blast
qed

section \<open>Lock one-way\<close>

text \<open>
  Claim C4. On a well-formed board, a cell that holds \<^verbatim>\<open>BLOCK_MOV\<close> and is in the direct
  set that \<^verbatim>\<open>recompute_light\<close> computes holds \<^verbatim>\<open>BLOCK_IMMOV\<close> after \<^verbatim>\<open>after_change\<close>;
  a second \<^verbatim>\<open>after_change\<close> on the resulting state, with any iteration orders, returns
  and leaves that cell, and every other cell holding \<^verbatim>\<open>BLOCK_IMMOV\<close>, as
  \<^verbatim>\<open>BLOCK_IMMOV\<close>.
\<close>

theorem C4_lock_is_one_way:
  assumes "well_formed g" and "valid_en en" and "valid_enc g enc"
    and "valid_en en'" and "valid_enc g enc'"
    and "recompute_light en g = Inr g1" and "(y, x) \<in> light_direct g1"
    and "tile g y x = Inr BLOCK_MOV"
  shows "\<exists>g3 g6. after_change en enc g = Inr g3 \<and> tile g3 y x = Inr BLOCK_IMMOV \<and>
           after_change en' enc' g3 = Inr g6 \<and> tile g6 y x = Inr BLOCK_IMMOV \<and>
           (\<forall>y' x'. in_bounds g y' x' \<and> tile g3 y' x' = Inr BLOCK_IMMOV
              \<longrightarrow> tile g6 y' x' = Inr BLOCK_IMMOV)"
proof -
  from after_change_eq[OF assms(1,2,3)] assms(6)
  obtain g3 where c: "after_change en enc g = Inr g3 \<and>
    well_formed g3 \<and> cfg g3 = cfg g \<and> base g3 = base g \<and>
    light_direct g1 \<subseteq> set (all_cells g) \<and>
    (\<forall>y x. in_bounds g y x \<longrightarrow>
       tile g3 y x =
         (if tile g y x = Inr BLOCK_MOV \<and>
             (\<exists>y'. (y', x) \<in> light_direct g1 \<and> base g ! nat y' = base g ! nat y)
          then Inr BLOCK_IMMOV else tile g y x))"
    by (elim exE conjE) simp
  note a1 = c[THEN conjunct1] and a2 = c[THEN conjunct2, THEN conjunct1]
    and a3 = c[THEN conjunct2, THEN conjunct2, THEN conjunct1]
    and a5 = c[THEN conjunct2, THEN conjunct2, THEN conjunct2, THEN conjunct2, THEN conjunct1]
    and t3 = c[THEN conjunct2, THEN conjunct2, THEN conjunct2, THEN conjunct2, THEN conjunct2]
  from a5 assms(7) have ib: "in_bounds g y x" by (auto simp: in_all_cells[symmetric])
  from assms(7) have "\<exists>y'. (y', x) \<in> light_direct g1 \<and> base g ! nat y' = base g ! nat y"
    by blast
  with t3[rule_format, OF ib] assms(8) have k3: "tile g3 y x = Inr BLOCK_IMMOV" by simp
  from assms(5) have enc3: "valid_enc g3 enc'" by (simp add: valid_enc_cfg[OF a3])
  from after_change_eq[OF a2 assms(4) enc3]
  obtain g4 g6 where d: "recompute_light en' g3 = Inr g4 \<and> after_change en' enc' g3 = Inr g6 \<and>
    well_formed g6 \<and> cfg g6 = cfg g3 \<and> base g6 = base g3 \<and>
    light_direct g4 \<subseteq> set (all_cells g3) \<and>
    (\<forall>y x. in_bounds g3 y x \<longrightarrow>
       tile g6 y x =
         (if tile g3 y x = Inr BLOCK_MOV \<and>
             (\<exists>y'. (y', x) \<in> light_direct g4 \<and> base g3 ! nat y' = base g3 ! nat y)
          then Inr BLOCK_IMMOV else tile g3 y x))"
    by (elim exE) (rule that)
  note b = d[THEN conjunct2, THEN conjunct1]
    and t6 = d[THEN conjunct2, THEN conjunct2, THEN conjunct2, THEN conjunct2, THEN conjunct2,
               THEN conjunct2]
  have keep: "\<forall>y' x'. in_bounds g y' x' \<and> tile g3 y' x' = Inr BLOCK_IMMOV
              \<longrightarrow> tile g6 y' x' = Inr BLOCK_IMMOV"
  proof (intro allI impI, elim conjE)
    fix y' x' assume i: "in_bounds g y' x'" and k: "tile g3 y' x' = Inr BLOCK_IMMOV"
    from i have "in_bounds g3 y' x'" by (simp add: in_bounds_cfg[OF a3])
    from t6[rule_format, OF this] k show "tile g6 y' x' = Inr BLOCK_IMMOV" by simp
  qed
  with ib k3 have "tile g6 y x = Inr BLOCK_IMMOV" by blast
  with a1 k3 b keep show ?thesis by (intro exI[of _ g3] exI[of _ g6]) simp
qed

text \<open>The theorem at a row with a movable block next to the source.\<close>

theorem C4_witness:
  "well_formed (row_board [5,1,0,1]) \<and> valid_en enum_dirs \<and>
   valid_enc (row_board [5,1,0,1]) (enum_cells (row_board [5,1,0,1])) \<and>
   valid_en enum_dirs_rev \<and>
   map_sum id light_direct (recompute_light enum_dirs (row_board [5,1,0,1])) = Inr {(0,1)} \<and>
   tile (row_board [5,1,0,1]) 0 1 = Inr BLOCK_MOV \<and>
   (\<exists>g3 g6. after_change enum_dirs (enum_cells (row_board [5,1,0,1])) (row_board [5,1,0,1]) = Inr g3 \<and>
      tile g3 0 1 = Inr BLOCK_IMMOV \<and>
      after_change enum_dirs_rev (enum_cells (row_board [5,1,0,1])) g3 = Inr g6 \<and>
      tile g6 0 1 = Inr BLOCK_IMMOV)"
proof -
  have h: "well_formed (row_board [5,1,0,1])" by code_simp
  have d: "map_sum id light_direct (recompute_light enum_dirs (row_board [5,1,0,1])) = Inr {(0,1)}"
    by code_simp
  have t: "tile (row_board [5,1,0,1]) 0 1 = Inr BLOCK_MOV" by code_simp
  from d obtain g1 where r: "recompute_light enum_dirs (row_board [5,1,0,1]) = Inr g1"
    and l: "light_direct g1 = {(0,1)}"
    by (cases "recompute_light enum_dirs (row_board [5,1,0,1])") auto
  from l have m: "(0,1) \<in> light_direct g1" by simp
  note e = valid_enc_enum_cells[of "row_board [5,1,0,1]"]
  from C4_lock_is_one_way[OF h valid_en_enum_dirs e valid_en_enum_dirs_rev e r m t]
  have "\<exists>g3 g6. after_change enum_dirs (enum_cells (row_board [5,1,0,1])) (row_board [5,1,0,1]) = Inr g3 \<and>
      tile g3 0 1 = Inr BLOCK_IMMOV \<and>
      after_change enum_dirs_rev (enum_cells (row_board [5,1,0,1])) g3 = Inr g6 \<and>
      tile g6 0 1 = Inr BLOCK_IMMOV"
    by blast
  with h valid_en_enum_dirs e valid_en_enum_dirs_rev d t show ?thesis by (intro conjI)
qed

section \<open>Monotonic growth\<close>

text \<open>
  Claim C5. On a well-formed board a pass of \<^verbatim>\<open>apply_crystals\<close> returns, and every
  coordinate of the direct set and of the scatter set before the pass is still in that
  set after it; the same holds from the start to the end of the whole refraction loop.
\<close>

theorem C5_passes_only_add:
  assumes "well_formed g"
  shows "(\<exists>g' ch. apply_crystals g = Inr (g', ch) \<and>
            light_direct g \<subseteq> light_direct g' \<and> light_scatter g \<subseteq> light_scatter g') \<and>
         (\<exists>g' ch n. crystal_loop g True 0 = Inr (g', ch, n) \<and>
            light_direct g \<subseteq> light_direct g' \<and> light_scatter g \<subseteq> light_scatter g')"
proof
  from crystal_pass_grows[of g]
  have "light_direct g \<subseteq> light_direct (crystal_pass g)"
    "light_scatter g \<subseteq> light_scatter (crystal_pass g)"
    by (simp_all add: light_grows_def)
  with apply_crystals_eq[OF assms]
  show "\<exists>g' ch. apply_crystals g = Inr (g', ch) \<and>
            light_direct g \<subseteq> light_direct g' \<and> light_scatter g \<subseteq> light_scatter g'"
    by blast
next
  from crystal_loop_passes[OF assms]
  obtain g' ch n where "crystal_loop g True 0 = Inr (g', ch, n)" "light_grows g g'" by blast
  then show "\<exists>g' ch n. crystal_loop g True 0 = Inr (g', ch, n) \<and>
            light_direct g \<subseteq> light_direct g' \<and> light_scatter g \<subseteq> light_scatter g'"
    by (auto simp: light_grows_def)
qed

text \<open>The theorem at the row with two crystals.\<close>

theorem C5_witness:
  "well_formed lit_row \<and>
   (\<exists>g' ch. apply_crystals lit_row = Inr (g', ch) \<and>
            light_direct lit_row \<subseteq> light_direct g' \<and> light_scatter lit_row \<subseteq> light_scatter g') \<and>
   (\<exists>g' ch n. crystal_loop lit_row True 0 = Inr (g', ch, n) \<and>
            light_direct lit_row \<subseteq> light_direct g' \<and> light_scatter lit_row \<subseteq> light_scatter g')"
proof -
  have h: "well_formed lit_row" by code_simp
  from C5_passes_only_add[OF h] h show ?thesis by blast
qed

section \<open>Termination of the refraction loop\<close>

text \<open>
  Claim C6. On a well-formed board with at most 14 crystals, in any arrangement, the
  refraction loop ends with \<^verbatim>\<open>changed\<close> false after at most (crystal count + 1)
  passes, which is fewer than the cap of 16; a further pass on the state it reaches adds
  nothing.
\<close>

theorem C6_fixed_point_within_count:
  assumes "well_formed g" and "crystal_count g \<le> 14"
  shows "\<exists>g' n. crystal_loop g True 0 = Inr (g', False, n) \<and>
           n \<le> crystal_count g + 1 \<and> n < 16 \<and>
           apply_crystals g' = Inr (g', False)"
proof -
  from crystal_loop_passes[OF assms(1)]
  obtain g' ch n where r: "crystal_loop g True 0 = Inr (g', ch, n)"
    "n \<le> crystal_count g + 1" "ch \<longrightarrow> 16 \<le> crystal_count g"
    "\<not> ch \<longrightarrow> apply_crystals g' = Inr (g', False)"
    by blast
  from r(3) assms(2) have "\<not> ch" by auto
  moreover from r(2) assms(2) have "n < 16" by simp
  ultimately show ?thesis using r by auto
qed

text \<open>The theorem at the row with two crystals.\<close>

theorem C6_witness:
  "well_formed lit_row \<and> crystal_count lit_row \<le> 14 \<and>
   (\<exists>g' n. crystal_loop lit_row True 0 = Inr (g', False, n) \<and>
           n \<le> crystal_count lit_row + 1 \<and> n < 16 \<and>
           apply_crystals g' = Inr (g', False))"
proof -
  have h1: "well_formed lit_row" by code_simp
  have h2: "crystal_count lit_row \<le> 14" by code_simp
  from C6_fixed_point_within_count[OF h1 h2] h1 h2 show ?thesis by blast
qed

section \<open>Determinism and idempotence\<close>

text \<open>
  Claim C7. On a well-formed board \<^verbatim>\<open>recompute_light\<close> returns the same state for
  every iteration order of the direction sets, and a second invocation, on the state the
  first one returned or on the same board with any stale light sets, returns that state
  again: both light sets are identical. The direction sets of the ledger are the only
  collections the recomputation iterates in an order the language leaves open; the cells
  and the four directions of a crystal pass are visited in the fixed order of the loops.
\<close>

theorem C7_recompute_idempotent:
  assumes "well_formed g" and "valid_en en1" and "valid_en en2"
  shows "\<exists>g1. recompute_light en1 g = Inr g1 \<and> recompute_light en2 g = Inr g1 \<and>
           recompute_light en2 g1 = Inr g1 \<and>
           recompute_light en2 (g\<lparr>light_direct := A, light_scatter := B\<rparr>) = Inr g1"
proof -
  from recompute_light_grows[OF assms(1,2)]
  obtain g1 where r: "recompute_light en1 g = Inr g1" by blast
  have e: "recompute_light en2 g = Inr g1"
    using recompute_light_en[OF assms(1,3,2)] r by simp
  have "g1\<lparr>light_direct := {}, light_scatter := {}\<rparr> = g\<lparr>light_direct := {}, light_scatter := {}\<rparr>"
    using assms(1,2) r by (rule recompute_light_same(9))
  then have "recompute_light en2 g1 = recompute_light en2 g"
    by (rule recompute_light_cleared)
  moreover have "recompute_light en2 (g\<lparr>light_direct := A, light_scatter := B\<rparr>) =
      recompute_light en2 g"
    by (rule recompute_light_cleared) simp
  ultimately show ?thesis using r e by simp
qed

text \<open>The theorem at a row with two sources and a block, for two different iteration orders.\<close>

theorem C7_witness:
  "well_formed (row_board [5,0,5,2,0]) \<and> valid_en enum_dirs \<and> valid_en enum_dirs_rev \<and>
   (\<exists>g1. recompute_light enum_dirs (row_board [5,0,5,2,0]) = Inr g1 \<and>
      recompute_light enum_dirs_rev (row_board [5,0,5,2,0]) = Inr g1 \<and>
      recompute_light enum_dirs_rev g1 = Inr g1 \<and>
      recompute_light enum_dirs_rev
        ((row_board [5,0,5,2,0])\<lparr>light_direct := {(0,4)}, light_scatter := {(0,4)}\<rparr>) = Inr g1)"
proof -
  have h: "well_formed (row_board [5,0,5,2,0])" by code_simp
  from C7_recompute_idempotent[OF h valid_en_enum_dirs valid_en_enum_dirs_rev,
      of "{(0,4)}" "{(0,4)}"] h valid_en_enum_dirs valid_en_enum_dirs_rev
  show ?thesis by blast
qed

section \<open>Source non-opacity\<close>

text \<open>
  Claim C8. For each of the four casts (\<^verbatim>\<open>cast_beam_direct\<close>, \<^verbatim>\<open>cast_scatter_from\<close>,
  \<^verbatim>\<open>cast_direct_line_from\<close>, \<^verbatim>\<open>cast_scatter_line_from\<close>) on a well-formed board: a cell
  \<open>c\<close> of the line that the beam reaches (no block before it) is in the cast's target set
  afterwards, and when \<open>c\<close> is not a block (so also when it holds \<^verbatim>\<open>SOURCE_ON\<close>,
  \<^verbatim>\<open>SOURCE_OFF\<close>, \<^verbatim>\<open>BG\<close> or \<^verbatim>\<open>CRYSTAL\<close>) the next cell of the line is in the target set
  too: the beam goes on, and only a block ends it before the end of the line.
\<close>

theorem C8_only_blocks_stop_a_beam:
  assumes "well_formed g"
    and "neighbors_line g (fst start) (snd start) d = pre @ c # post"
    and "\<forall>p \<in> set pre. \<not> is_block g p"
  shows "(\<exists>g' bm'. cast_beam_direct g start d bm = Inr (g', bm') \<and> c \<in> light_direct g' \<and>
            (\<not> is_block g c \<and> post \<noteq> [] \<longrightarrow> hd post \<in> light_direct g')) \<and>
         (\<exists>g'. cast_scatter_from g start d = Inr g' \<and> c \<in> light_scatter g' \<and>
            (\<not> is_block g c \<and> post \<noteq> [] \<longrightarrow> hd post \<in> light_scatter g')) \<and>
         (\<exists>g' ch. cast_direct_line_from g start d = Inr (g', ch) \<and> c \<in> light_direct g' \<and>
            (\<not> is_block g c \<and> post \<noteq> [] \<longrightarrow> hd post \<in> light_direct g')) \<and>
         (\<exists>g' ch. cast_scatter_line_from g start d = Inr (g', ch) \<and> c \<in> light_scatter g' \<and>
            (\<not> is_block g c \<and> post \<noteq> [] \<longrightarrow> hd post \<in> light_scatter g'))"
proof -
  let ?line = "neighbors_line g (fst start) (snd start) d"
  have e: "emit_dirs g start [d] = set (beam_cells g ?line)" by (simp add: emit_dirs_def)
  have c: "c \<in> emit_dirs g start [d]"
    unfolding e using assms(2,3) by (rule beam_cells_next(1))
  have n: "\<not> is_block g c \<and> post \<noteq> [] \<longrightarrow> hd post \<in> emit_dirs g start [d]"
    unfolding e using beam_cells_next(2)[OF assms(2,3)] by blast
  show ?thesis
    using c n
    by (simp add: cast_beam_direct_eq[OF assms(1)] cast_scatter_from_eq[OF assms(1)]
        cast_direct_line_from_eq[OF assms(1)] cast_scatter_line_from_eq[OF assms(1)])
qed

text \<open>The theorem at a row where the beam passes a \<^verbatim>\<open>SOURCE_OFF\<close> cell.\<close>

theorem C8_witness:
  "well_formed (row_board [5,0,6,0,1]) \<and>
   neighbors_line (row_board [5,0,6,0,1]) (fst (0,0)) (snd (0,0)) R = [(0,1)] @ (0,2) # [(0,3), (0,4)] \<and>
   \<not> is_block (row_board [5,0,6,0,1]) (0,1) \<and>
   tile (row_board [5,0,6,0,1]) 0 2 = Inr SOURCE_OFF \<and>
   (\<exists>g' bm'. cast_beam_direct (row_board [5,0,6,0,1]) (0,0) R [] = Inr (g', bm') \<and>
      (0,2) \<in> light_direct g' \<and> (0,3) \<in> light_direct g') \<and>
   (\<exists>g'. cast_scatter_from (row_board [5,0,6,0,1]) (0,0) R = Inr g' \<and>
      (0,2) \<in> light_scatter g' \<and> (0,3) \<in> light_scatter g') \<and>
   (\<exists>g' ch. cast_direct_line_from (row_board [5,0,6,0,1]) (0,0) R = Inr (g', ch) \<and>
      (0,2) \<in> light_direct g' \<and> (0,3) \<in> light_direct g') \<and>
   (\<exists>g' ch. cast_scatter_line_from (row_board [5,0,6,0,1]) (0,0) R = Inr (g', ch) \<and>
      (0,2) \<in> light_scatter g' \<and> (0,3) \<in> light_scatter g')"
proof -
  have h1: "well_formed (row_board [5,0,6,0,1])" by code_simp
  have h2: "neighbors_line (row_board [5,0,6,0,1]) (fst (0,0)) (snd (0,0)) R = [(0,1)] @ (0,2) # [(0,3), (0,4)]"
    by code_simp
  have h3': "\<not> is_block (row_board [5,0,6,0,1]) (0,1)" by code_simp
  then have h3: "\<forall>p \<in> set [(0,1)]. \<not> is_block (row_board [5,0,6,0,1]) p" by simp
  have t: "tile (row_board [5,0,6,0,1]) 0 2 = Inr SOURCE_OFF" by code_simp
  then have nb: "\<not> is_block (row_board [5,0,6,0,1]) (0,2)" by (simp add: is_block_def)
  from C8_only_blocks_stop_a_beam[OF h1 h2 h3, of "[]"] nb
  have "(\<exists>g' bm'. cast_beam_direct (row_board [5,0,6,0,1]) (0,0) R [] = Inr (g', bm') \<and>
      (0,2) \<in> light_direct g' \<and> (0,3) \<in> light_direct g') \<and>
   (\<exists>g'. cast_scatter_from (row_board [5,0,6,0,1]) (0,0) R = Inr g' \<and>
      (0,2) \<in> light_scatter g' \<and> (0,3) \<in> light_scatter g') \<and>
   (\<exists>g' ch. cast_direct_line_from (row_board [5,0,6,0,1]) (0,0) R = Inr (g', ch) \<and>
      (0,2) \<in> light_direct g' \<and> (0,3) \<in> light_direct g') \<and>
   (\<exists>g' ch. cast_scatter_line_from (row_board [5,0,6,0,1]) (0,0) R = Inr (g', ch) \<and>
      (0,2) \<in> light_scatter g' \<and> (0,3) \<in> light_scatter g')"
    by simp
  with h1 h2 h3' t show ?thesis by blast
qed

section \<open>Out-of-range access\<close>

text \<open>
  Claim C9, as stated, fails: \<^verbatim>\<open>tile\<close> indexes \<^verbatim>\<open>base\<close> with Python's list indexing,
  which counts a negative index from the end. On a row of five cells the coordinate
  (-1,-3) is out of bounds and \<^verbatim>\<open>tile\<close> returns the kind of the cell (0,2).
\<close>

theorem C9_counterexample:
  "\<not> in_bounds (row_board [5,0,1,0,0]) (-1) (-3) \<and>
   tile (row_board [5,0,1,0,0]) (-1) (-3) = Inr BLOCK_MOV"
  by code_simp

text \<open>
  Claim C9, amended. On a well-formed board, for a coordinate that is out of bounds:
  \<^verbatim>\<open>tile\<close> fails with IndexError when neither component is negative, and more generally
  when \<open>y\<close> is outside \<open>-height .. height-1\<close> or \<open>x\<close> is outside \<open>-width .. width-1\<close>;
  otherwise it returns the kind of the in-bounds cell that has \<open>height\<close> added to a
  negative \<open>y\<close> and \<open>width\<close> added to a negative \<open>x\<close>.
\<close>

theorem C9_tile_out_of_bounds:
  assumes "well_formed g" and "\<not> in_bounds g y x"
  shows "(0 \<le> y \<and> 0 \<le> x \<longrightarrow> tile g y x = Inl IndexError) \<and>
         (y < - height (cfg g) \<or> height (cfg g) \<le> y \<or> x < - width (cfg g) \<or> width (cfg g) \<le> x
            \<longrightarrow> tile g y x = Inl IndexError) \<and>
         (- height (cfg g) \<le> y \<and> y < height (cfg g) \<and> - width (cfg g) \<le> x \<and> x < width (cfg g)
            \<longrightarrow> in_bounds g (if y < 0 then y + height (cfg g) else y)
                  (if x < 0 then x + width (cfg g) else x) \<and>
                tile g y x = tile g (if y < 0 then y + height (cfg g) else y)
                  (if x < 0 then x + width (cfg g) else x) \<and>
                (\<exists>t. tile g y x = Inr t))"
proof (intro conjI impI)
  assume "0 \<le> y \<and> 0 \<le> x"
  with assms(2) have "\<not> (- height (cfg g) \<le> y \<and> y < height (cfg g) \<and>
      - width (cfg g) \<le> x \<and> x < width (cfg g))"
    by (auto simp: in_bounds_def)
  with assms(1) show "tile g y x = Inl IndexError" by (rule tile_outside)
next
  assume "y < - height (cfg g) \<or> height (cfg g) \<le> y \<or> x < - width (cfg g) \<or> width (cfg g) \<le> x"
  then have "\<not> (- height (cfg g) \<le> y \<and> y < height (cfg g) \<and>
      - width (cfg g) \<le> x \<and> x < width (cfg g))"
    by auto
  with assms(1) show "tile g y x = Inl IndexError" by (rule tile_outside)
next
  assume a: "- height (cfg g) \<le> y \<and> y < height (cfg g) \<and> - width (cfg g) \<le> x \<and> x < width (cfg g)"
  then have b: "- height (cfg g) \<le> y" "y < height (cfg g)" "- width (cfg g) \<le> x" "x < width (cfg g)"
    by simp_all
  note w = tile_wraps[OF assms(1) b]
  from w(1) show "in_bounds g (if y < 0 then y + height (cfg g) else y)
                  (if x < 0 then x + width (cfg g) else x)" .
  from w(2) show "tile g y x = tile g (if y < 0 then y + height (cfg g) else y)
                  (if x < 0 then x + width (cfg g) else x)" .
  from tile_in_bounds[OF assms(1) w(1)] w(2) show "\<exists>t. tile g y x = Inr t" by simp
qed

text \<open>The theorem at a row of five cells, beyond the end and at a negative column.\<close>

theorem C9_witness:
  "well_formed (row_board [5,0,1,0,0]) \<and> \<not> in_bounds (row_board [5,0,1,0,0]) 0 7 \<and>
   tile (row_board [5,0,1,0,0]) 0 7 = Inl IndexError \<and>
   \<not> in_bounds (row_board [5,0,1,0,0]) 0 (-3) \<and> in_bounds (row_board [5,0,1,0,0]) 0 2 \<and>
   tile (row_board [5,0,1,0,0]) 0 (-3) = tile (row_board [5,0,1,0,0]) 0 2"
proof -
  have h1: "well_formed (row_board [5,0,1,0,0])" by code_simp
  have h2: "\<not> in_bounds (row_board [5,0,1,0,0]) 0 7" by code_simp
  have h3: "\<not> in_bounds (row_board [5,0,1,0,0]) 0 (-3)" by code_simp
  have c: "cfg (row_board [5,0,1,0,0]) = \<lparr>width = 5, height = 1, energy_max = 20, lives_max = 3\<rparr>"
    by (simp add: row_board_def board_def)
  from C9_tile_out_of_bounds[OF h1 h2] have a: "tile (row_board [5,0,1,0,0]) 0 7 = Inl IndexError"
    by simp
  from C9_tile_out_of_bounds[OF h1 h3] have b: "in_bounds (row_board [5,0,1,0,0]) 0 2 \<and>
      tile (row_board [5,0,1,0,0]) 0 (-3) = tile (row_board [5,0,1,0,0]) 0 2"
    by (simp add: c)
  from h1 h2 h3 a b show ?thesis by blast
qed

section \<open>Frame of the lock transition\<close>

text \<open>
  Claim C10, as stated, fails on a board with a shared row object: \<^verbatim>\<open>set_tile\<close> stores
  into the row object, which shows at every row index that holds it. In the game
  \<open>shared_rows\<close> the source at (2,0) lights the movable block at (1,0) and not the one at
  (0,0); the lock writes row 1, which is row 0 too, and (0,0) holds \<^verbatim>\<open>BLOCK_IMMOV\<close>
  after \<^verbatim>\<open>after_change\<close>.
\<close>

theorem C10_counterexample:
  "well_formed shared_rows \<and>
   map_sum id light_direct (recompute_light enum_dirs shared_rows) = Inr {(1,0), (2,1), (2,2)} \<and>
   (0,0) \<notin> {(1,0), (2,1), (2,2) :: Coord} \<and>
   tile shared_rows 0 0 = Inr BLOCK_MOV \<and>
   map_sum id (\<lambda>g. tile g 0 0)
     (after_change enum_dirs (enum_cells shared_rows) shared_rows) = Inr (Inr BLOCK_IMMOV)"
  by code_simp

text \<open>
  Claim C10, amended. On a well-formed board whose rows are distinct list objects
  \<^verbatim>\<open>after_change\<close> returns with the same configuration, and the kind of every cell of
  the board is as before, except that a cell that held \<^verbatim>\<open>BLOCK_MOV\<close> and is in the
  direct set computed by the first \<^verbatim>\<open>recompute_light\<close> holds \<^verbatim>\<open>BLOCK_IMMOV\<close>.
\<close>

theorem C10_lock_changes_only_lit_movable_blocks:
  assumes "well_formed g" and "valid_en en" and "valid_enc g enc" and "distinct (base g)"
  shows "\<exists>g1 g3. recompute_light en g = Inr g1 \<and> after_change en enc g = Inr g3 \<and>
    cfg g3 = cfg g \<and>
    (\<forall>y x. in_bounds g y x \<longrightarrow>
       tile g3 y x = (if (y, x) \<in> light_direct g1 \<and> tile g y x = Inr BLOCK_MOV
                      then Inr BLOCK_IMMOV else tile g y x))"
proof -
  from after_change_eq[OF assms(1,2,3)]
  obtain g1 g3 where c: "recompute_light en g = Inr g1 \<and> after_change en enc g = Inr g3 \<and>
    well_formed g3 \<and> cfg g3 = cfg g \<and> base g3 = base g \<and>
    light_direct g1 \<subseteq> set (all_cells g) \<and>
    (\<forall>y x. in_bounds g y x \<longrightarrow>
       tile g3 y x =
         (if tile g y x = Inr BLOCK_MOV \<and>
             (\<exists>y'. (y', x) \<in> light_direct g1 \<and> base g ! nat y' = base g ! nat y)
          then Inr BLOCK_IMMOV else tile g y x))"
    by (elim exE) (rule that)
  note c1 = c[THEN conjunct1] and c2 = c[THEN conjunct2, THEN conjunct1]
    and c4 = c[THEN conjunct2, THEN conjunct2, THEN conjunct2, THEN conjunct1]
    and c6 = c[THEN conjunct2, THEN conjunct2, THEN conjunct2, THEN conjunct2, THEN conjunct2,
               THEN conjunct1]
    and c7 = c[THEN conjunct2, THEN conjunct2, THEN conjunct2, THEN conjunct2, THEN conjunct2,
               THEN conjunct2]
  have "\<forall>y x. in_bounds g y x \<longrightarrow>
       tile g3 y x = (if (y, x) \<in> light_direct g1 \<and> tile g y x = Inr BLOCK_MOV
                      then Inr BLOCK_IMMOV else tile g y x)"
  proof (intro allI impI)
    fix y x assume i: "in_bounds g y x"
    have "(\<exists>y'. (y', x) \<in> light_direct g1 \<and> base g ! nat y' = base g ! nat y) =
          ((y, x) \<in> light_direct g1)"
    proof
      assume "\<exists>y'. (y', x) \<in> light_direct g1 \<and> base g ! nat y' = base g ! nat y"
      then obtain y' where m: "(y', x) \<in> light_direct g1"
        and s: "base g ! nat y' = base g ! nat y" by blast
      from m c6 have i': "in_bounds g y' x" by (auto simp: in_all_cells[symmetric])
      from i i' assms(1) have "nat y < length (base g)" "nat y' < length (base g)"
        "0 \<le> y" "0 \<le> y'"
        by (auto simp: in_bounds_def well_formed_def)
      with s assms(4) have "y' = y" by (simp add: nth_eq_iff_index_eq)
      with m show "(y, x) \<in> light_direct g1" by simp
    next
      assume "(y, x) \<in> light_direct g1"
      then show "\<exists>y'. (y', x) \<in> light_direct g1 \<and> base g ! nat y' = base g ! nat y" by blast
    qed
    with c7[rule_format, OF i]
    show "tile g3 y x = (if (y, x) \<in> light_direct g1 \<and> tile g y x = Inr BLOCK_MOV
                      then Inr BLOCK_IMMOV else tile g y x)"
      by auto
  qed
  with c1 c2 c4 show ?thesis by (intro exI[of _ g1] exI[of _ g3]) simp
qed

text \<open>The theorem at a row with a lit and an unlit movable block.\<close>

theorem C10_witness:
  "well_formed (row_board [5,1,0,1]) \<and> valid_en enum_dirs \<and>
   valid_enc (row_board [5,1,0,1]) (enum_cells (row_board [5,1,0,1])) \<and>
   distinct (base (row_board [5,1,0,1])) \<and>
   (\<exists>g1 g3. recompute_light enum_dirs (row_board [5,1,0,1]) = Inr g1 \<and>
      after_change enum_dirs (enum_cells (row_board [5,1,0,1])) (row_board [5,1,0,1]) = Inr g3 \<and>
      cfg g3 = cfg (row_board [5,1,0,1]) \<and>
      (\<forall>y x. in_bounds (row_board [5,1,0,1]) y x \<longrightarrow>
         tile g3 y x = (if (y, x) \<in> light_direct g1 \<and> tile (row_board [5,1,0,1]) y x = Inr BLOCK_MOV
                        then Inr BLOCK_IMMOV else tile (row_board [5,1,0,1]) y x)))"
proof -
  have h: "well_formed (row_board [5,1,0,1])" by code_simp
  have d: "distinct (base (row_board [5,1,0,1]))" by code_simp
  from C10_lock_changes_only_lit_movable_blocks[OF h valid_en_enum_dirs valid_enc_enum_cells d]
    h d valid_en_enum_dirs valid_enc_enum_cells[of "row_board [5,1,0,1]"]
  show ?thesis by (intro conjI)
qed

end
